(* ===== verification/Ext2_Prelude.thy ===== *)
theory Ext2_Prelude
  imports Main "HOL-Library.Word"
begin

text \<open>
  Shared vocabulary of the development: machine words, byte-addressed memory with the CPU's byte
  order (used for on-disk inodes, directory pages, indirect blocks and bitmaps), error numbers,
  and the generic facts the component theories use.
\<close>

unbundle bit_operations_syntax

section \<open>Words, byte order and error numbers\<close>

type_synonym u8 = "8 word"
type_synonym u16 = "16 word"
type_synonym u32 = "32 word"
type_synonym u64 = "64 word"
type_synonym mem = "nat \<Rightarrow> u8"

datatype arch = LittleEndian | BigEndian

text \<open>Error numbers of \<open>include/asm-generic/errno-base.h\<close> and \<open>errno.h\<close>; functions return them negated.\<close>

abbreviation EPERM :: int where "EPERM \<equiv> 1"
abbreviation ENOENT :: int where "ENOENT \<equiv> 2"
abbreviation EIO :: int where "EIO \<equiv> 5"
abbreviation EBADF :: int where "EBADF \<equiv> 9"
abbreviation EAGAIN :: int where "EAGAIN \<equiv> 11"
abbreviation ENOMEM :: int where "ENOMEM \<equiv> 12"
abbreviation EACCES :: int where "EACCES \<equiv> 13"
abbreviation EFAULT :: int where "EFAULT \<equiv> 14"
abbreviation EEXIST :: int where "EEXIST \<equiv> 17"
abbreviation ENODEV :: int where "ENODEV \<equiv> 19"
abbreviation EINVAL :: int where "EINVAL \<equiv> 22"
abbreviation ENOTTY :: int where "ENOTTY \<equiv> 25"
abbreviation ENOSPC :: int where "ENOSPC \<equiv> 28"
abbreviation EROFS :: int where "EROFS \<equiv> 30"
abbreviation EMLINK :: int where "EMLINK \<equiv> 31"
abbreviation ENAMETOOLONG :: int where "ENAMETOOLONG \<equiv> 36"
abbreviation ENOTEMPTY :: int where "ENOTEMPTY \<equiv> 39"
abbreviation ENODATA :: int where "ENODATA \<equiv> 61"
abbreviation EOPNOTSUPP :: int where "EOPNOTSUPP \<equiv> 95"
abbreviation ESTALE :: int where "ESTALE \<equiv> 116"

section \<open>Byte-addressed memory\<close>

text \<open>
  A buffer, a page or a structure in memory is a function from byte offsets to bytes, as C sees
  it through a pointer: offsets are not bounds-checked, so a write past the end of a structure
  lands in what follows it.
\<close>

named_theorems mem_simps

definition write_bytes :: "mem \<Rightarrow> nat \<Rightarrow> u8 list \<Rightarrow> mem" where
  "write_bytes m a bs = (\<lambda>x. if a \<le> x \<and> x < a + length bs then bs ! (x - a) else m x)"

definition read_bytes :: "mem \<Rightarrow> nat \<Rightarrow> nat \<Rightarrow> u8 list" where
  "read_bytes m a n = map (\<lambda>i. m (a + i)) [0..<n]"

definition le_bytes :: "'a::len word \<Rightarrow> u8 list" where
  "le_bytes w = map (\<lambda>i. ucast (drop_bit (8 * i) w)) [0..<LENGTH('a) div 8]"

primrec of_le_bytes :: "u8 list \<Rightarrow> 'a::len word" where
  "of_le_bytes [] = 0"
| "of_le_bytes (b # bs) = ucast b OR push_bit 8 (of_le_bytes bs)"

lemma bit_of_le_bytes:
  "bit (of_le_bytes bs :: 'a::len word) n \<longleftrightarrow>
     n < LENGTH('a) \<and> n div 8 < length bs \<and> bit (bs ! (n div 8)) (n mod 8)"
proof (induction bs arbitrary: n)
  case Nil
  then show ?case by simp
next
  case (Cons b bs)
  show ?case
  proof (cases "n < 8")
    case True
    then show ?thesis
      by (auto simp: bit_simps)
  next
    case False
    then have "n div 8 = Suc ((n - 8) div 8)" and "n mod 8 = (n - 8) mod 8"
      by (simp_all add: le_div_geq le_mod_geq)
    moreover have "\<not> bit (ucast b :: 'a word) n"
      using False by (auto simp: bit_simps dest: bit_imp_le_length)
    ultimately show ?thesis
      using False Cons.IH [of "n - 8"] by (auto simp: bit_simps)
  qed
qed

lemma of_le_bytes_le_bytes:
  assumes "8 dvd LENGTH('a::len)"
  shows "of_le_bytes (le_bytes (w :: 'a word)) = w"
proof (rule bit_word_eqI)
  fix n assume n: "n < LENGTH('a)"
  have "n div 8 < LENGTH('a) div 8"
    using n assms by (auto simp: dvd_def elim!: dvdE)
  then show "bit (of_le_bytes (le_bytes w) :: 'a word) n \<longleftrightarrow> bit w n"
    using n by (simp add: bit_of_le_bytes le_bytes_def bit_simps)
qed

lemma length_le_bytes [simp]: "length (le_bytes (w :: 'a::len word)) = LENGTH('a) div 8"
  by (simp add: le_bytes_def)

lemma le_bytes_of_le_bytes:
  assumes "length bs = LENGTH('a::len) div 8"
  shows "le_bytes (of_le_bytes bs :: 'a word) = bs"
proof (rule nth_equalityI)
  show "length (le_bytes (of_le_bytes bs :: 'a word)) = length bs"
    using assms by simp
next
  fix i assume "i < length (le_bytes (of_le_bytes bs :: 'a word))"
  then have i: "i < length bs" "i < LENGTH('a) div 8"
    using assms by simp_all
  show "le_bytes (of_le_bytes bs :: 'a word) ! i = bs ! i"
  proof (rule bit_word_eqI)
    fix n assume n: "n < LENGTH(8)"
    have "8 * i + n < LENGTH('a)"
      using i(2) n by (simp add: less_mult_imp_div_less)
    then show "bit (le_bytes (of_le_bytes bs :: 'a word) ! i) n = bit (bs ! i) n"
      using i n by (simp add: le_bytes_def bit_simps bit_of_le_bytes)
  qed
qed

text \<open>How the CPU lays a word out in memory, and the \<open>cpu_to_le\<close>/\<open>le_to_cpu\<close> conversions.\<close>

definition mem_order :: "arch \<Rightarrow> u8 list \<Rightarrow> u8 list" where
  "mem_order A bs = (case A of LittleEndian \<Rightarrow> bs | BigEndian \<Rightarrow> rev bs)"

definition store_word :: "arch \<Rightarrow> mem \<Rightarrow> nat \<Rightarrow> 'a::len word \<Rightarrow> mem" where
  "store_word A m a w = write_bytes m a (mem_order A (le_bytes w))"

definition load_word :: "arch \<Rightarrow> mem \<Rightarrow> nat \<Rightarrow> 'a::len word" where
  "load_word A m a = of_le_bytes (mem_order A (read_bytes m a (LENGTH('a) div 8)))"

definition cpu_to_le :: "arch \<Rightarrow> 'a::len word \<Rightarrow> 'a word" where
  "cpu_to_le A w = of_le_bytes (mem_order A (le_bytes w))"

definition le_to_cpu :: "arch \<Rightarrow> 'a::len word \<Rightarrow> 'a word" where
  "le_to_cpu A w = of_le_bytes (mem_order A (le_bytes w))"

lemma length_mem_order [simp]: "length (mem_order A bs) = length bs"
  by (cases A) (simp_all add: mem_order_def)

lemma mem_order_mem_order [simp]: "mem_order A (mem_order A bs) = bs"
  by (cases A) (simp_all add: mem_order_def)

lemma length_read_bytes [simp]: "length (read_bytes m a n) = n"
  by (simp add: read_bytes_def)

lemma nth_read_bytes [simp]: "i < n \<Longrightarrow> read_bytes m a n ! i = m (a + i)"
  by (simp add: read_bytes_def)

lemma read_write_bytes_same [simp]: "read_bytes (write_bytes m a bs) a (length bs) = bs"
  by (rule nth_equalityI) (auto simp: write_bytes_def)

lemma read_write_bytes_disjoint [simp]:
  "a + length bs \<le> b \<or> b + n \<le> a \<Longrightarrow> read_bytes (write_bytes m a bs) b n = read_bytes m b n"
  by (rule nth_equalityI) (auto simp: write_bytes_def)

lemma write_bytes_outside [simp]:
  "x < a \<or> a + length bs \<le> x \<Longrightarrow> write_bytes m a bs x = m x"
  by (auto simp: write_bytes_def)

lemma le_to_cpu_to_le [simp]:
  "8 dvd LENGTH('a::len) \<Longrightarrow> le_to_cpu A (cpu_to_le A w) = (w :: 'a word)"
  by (simp add: le_to_cpu_def cpu_to_le_def le_bytes_of_le_bytes of_le_bytes_le_bytes)

lemma cpu_to_le_little [simp]:
  "8 dvd LENGTH('a::len) \<Longrightarrow> cpu_to_le LittleEndian w = (w :: 'a word)"
  by (simp add: cpu_to_le_def mem_order_def of_le_bytes_le_bytes)

lemma le_to_cpu_little [simp]:
  "8 dvd LENGTH('a::len) \<Longrightarrow> le_to_cpu LittleEndian w = (w :: 'a word)"
  by (simp add: le_to_cpu_def mem_order_def of_le_bytes_le_bytes)

lemma load_store_same [mem_simps]:
  assumes "8 dvd LENGTH('a::len)"
  shows "load_word A (store_word A m a w) a = (w :: 'a word)"
proof -
  have "read_bytes (store_word A m a w) a (LENGTH('a) div 8) = mem_order A (le_bytes w)"
    using read_write_bytes_same [of m a "mem_order A (le_bytes w)"]
    by (simp add: store_word_def)
  then show ?thesis
    using assms by (simp add: load_word_def of_le_bytes_le_bytes)
qed

lemma load_store_disjoint [mem_simps]:
  "a + LENGTH('a) div 8 \<le> b \<or> b + LENGTH('b) div 8 \<le> a \<Longrightarrow>
     load_word A (store_word A' m a (w :: 'a::len word)) b = (load_word A m b :: 'b::len word)"
  by (simp add: load_word_def store_word_def)

lemma store_outside [mem_simps]:
  "x < a \<or> a + LENGTH('a) div 8 \<le> x \<Longrightarrow> store_word A m a (w :: 'a::len word) x = m x"
  by (simp add: store_word_def)

lemma load_byte_upd [mem_simps]:
  "x < a \<or> a + LENGTH('a) div 8 \<le> x \<Longrightarrow> load_word A (m(x := b)) a = (load_word A m a :: 'a::len word)"
proof -
  assume "x < a \<or> a + LENGTH('a) div 8 \<le> x"
  then have "read_bytes (m(x := b)) a (LENGTH('a) div 8) = read_bytes m a (LENGTH('a) div 8)"
    by (intro nth_equalityI) auto
  then show ?thesis by (simp add: load_word_def)
qed

text \<open>
  What reaches the disk when the CPU stores a converted word: its bytes, least significant first,
  whatever the byte order of the CPU.
\<close>

lemma read_store_cpu_to_le [mem_simps]:
  assumes "8 dvd LENGTH('a::len)"
  shows "read_bytes (store_word A m a (cpu_to_le A (w :: 'a word))) a (LENGTH('a) div 8) = le_bytes w"
  using read_write_bytes_same [of m a "mem_order A (le_bytes (cpu_to_le A w))"] assms
  by (simp add: store_word_def cpu_to_le_def le_bytes_of_le_bytes)

section \<open>Little-endian fields and arrays\<close>

definition le_load :: "arch \<Rightarrow> mem \<Rightarrow> nat \<Rightarrow> 'a::len word" where
  "le_load A m a = le_to_cpu A (load_word A m a)"

definition le_store :: "arch \<Rightarrow> mem \<Rightarrow> nat \<Rightarrow> 'a::len word \<Rightarrow> mem" where
  "le_store A m a w = store_word A m a (cpu_to_le A w)"

primrec store_words :: "arch \<Rightarrow> mem \<Rightarrow> nat \<Rightarrow> u32 list \<Rightarrow> mem" where
  "store_words A m a [] = m"
| "store_words A m a (w # ws) = store_words A (store_word A m a w) (a + 4) ws"

definition load_words :: "arch \<Rightarrow> mem \<Rightarrow> nat \<Rightarrow> nat \<Rightarrow> u32 list" where
  "load_words A m a n = map (\<lambda>i. load_word A m (a + 4 * i)) [0..<n]"

lemma le_load_bytes:
  "8 dvd LENGTH('a::len) \<Longrightarrow> (le_load A m a :: 'a word) = of_le_bytes (read_bytes m a (LENGTH('a) div 8))"
  by (simp add: le_load_def le_to_cpu_def load_word_def le_bytes_of_le_bytes)

lemma read_bytes_le_load:
  "8 dvd LENGTH('a::len) \<Longrightarrow> read_bytes m a (LENGTH('a) div 8) = le_bytes (le_load A m a :: 'a word)"
  by (simp add: le_load_bytes le_bytes_of_le_bytes)

lemma take_read_bytes: "k \<le> n \<Longrightarrow> take k (read_bytes m a n) = read_bytes m a k"
  by (simp add: read_bytes_def take_map)

lemma le_load_store_same [mem_simps]:
  "8 dvd LENGTH('a::len) \<Longrightarrow> le_load A (le_store A m a w) a = (w :: 'a word)"
  by (simp add: le_load_def le_store_def load_store_same)

lemma le_load_le_store_disjoint [mem_simps]:
  "a + LENGTH('a) div 8 \<le> b \<or> b + LENGTH('b) div 8 \<le> a \<Longrightarrow>
     le_load A (le_store A' m a (w :: 'a::len word)) b = (le_load A m b :: 'b::len word)"
  by (simp add: le_load_def le_store_def load_store_disjoint)

lemma le_load_store_disjoint [mem_simps]:
  "a + LENGTH('a) div 8 \<le> b \<or> b + LENGTH('b) div 8 \<le> a \<Longrightarrow>
     le_load A (store_word A' m a (w :: 'a::len word)) b = (le_load A m b :: 'b::len word)"
  by (simp add: le_load_def load_store_disjoint)

lemma load_le_store_disjoint [mem_simps]:
  "a + LENGTH('a) div 8 \<le> b \<or> b + LENGTH('b) div 8 \<le> a \<Longrightarrow>
     load_word A (le_store A' m a (w :: 'a::len word)) b = (load_word A m b :: 'b::len word)"
  by (simp add: le_store_def load_store_disjoint)

lemma le_store_outside [mem_simps]:
  "x < a \<or> a + LENGTH('a) div 8 \<le> x \<Longrightarrow> le_store A m a (w :: 'a::len word) x = m x"
  by (simp add: le_store_def store_outside)

lemma le_load_byte_upd [mem_simps]:
  "x < a \<or> a + LENGTH('a) div 8 \<le> x \<Longrightarrow> le_load A (m(x := b)) a = (le_load A m a :: 'a::len word)"
  by (simp add: le_load_def load_byte_upd)

lemma read_bytes_cong: "(\<And>i. a \<le> i \<Longrightarrow> i < a + n \<Longrightarrow> m i = m' i) \<Longrightarrow> read_bytes m a n = read_bytes m' a n"
  by (simp add: read_bytes_def)

lemma load_word_cong:
  "(\<And>i. a \<le> i \<Longrightarrow> i < a + LENGTH('a::len) div 8 \<Longrightarrow> m i = m' i) \<Longrightarrow>
     load_word A m a = (load_word A m' a :: 'a word)"
  unfolding load_word_def by (metis read_bytes_cong)

lemma le_load_cong:
  "(\<And>i. a \<le> i \<Longrightarrow> i < a + LENGTH('a::len) div 8 \<Longrightarrow> m i = m' i) \<Longrightarrow>
     le_load A m a = (le_load A m' a :: 'a word)"
  unfolding le_load_def by (metis load_word_cong)

lemma store_words_outside [mem_simps]:
  "x < a \<or> a + 4 * length ws \<le> x \<Longrightarrow> store_words A m a ws x = m x"
  by (induction ws arbitrary: m a) (auto simp: store_outside)

lemma load_store_words_disjoint [mem_simps]:
  "b + LENGTH('b) div 8 \<le> a \<or> a + 4 * length ws \<le> b \<Longrightarrow>
     load_word A (store_words A' m a ws) b = (load_word A m b :: 'b::len word)"
  by (rule load_word_cong) (auto simp: store_words_outside)

lemma le_load_store_words_disjoint [mem_simps]:
  "b + LENGTH('b) div 8 \<le> a \<or> a + 4 * length ws \<le> b \<Longrightarrow>
     le_load A (store_words A' m a ws) b = (le_load A m b :: 'b::len word)"
  by (simp add: le_load_def load_store_words_disjoint)

lemma load_word_store_words:
  "i < length ws \<Longrightarrow> load_word A (store_words A m a ws) (a + 4 * i) = ws ! i"
proof (induction ws arbitrary: m a i)
  case (Cons w ws)
  show ?case
  proof (cases i)
    case 0
    then show ?thesis by (simp add: load_store_words_disjoint load_store_same)
  next
    case (Suc j)
    then show ?thesis
      using Cons.IH [of j "store_word A m a w" "a + 4"] Cons.prems
      by (simp add: algebra_simps)
  qed
qed simp

lemma load_store_words [mem_simps]: "load_words A (store_words A m a ws) a (length ws) = ws"
  by (rule nth_equalityI) (simp_all add: load_words_def load_word_store_words)

lemma length_load_words [simp]: "length (load_words A m a n) = n"
  by (simp add: load_words_def)

lemma load_words_store_disjoint [mem_simps]:
  "b + LENGTH('b) div 8 \<le> a \<or> a + 4 * n \<le> b \<Longrightarrow>
     load_words A (store_word A' m b (w :: 'b::len word)) a n = load_words A m a n"
  by (auto simp: load_words_def intro!: load_store_disjoint)

lemma load_words_le_store_disjoint [mem_simps]:
  "b + LENGTH('b) div 8 \<le> a \<or> a + 4 * n \<le> b \<Longrightarrow>
     load_words A (le_store A' m b (w :: 'b::len word)) a n = load_words A m a n"
  by (simp add: le_store_def load_words_store_disjoint)

lemma load_words_byte_upd [mem_simps]:
  "x < a \<or> a + 4 * n \<le> x \<Longrightarrow> load_words A (m(x := b)) a n = load_words A m a n"
  by (auto simp: load_words_def intro!: load_byte_upd)

text \<open>A 32-bit value split into its two halves and put together again.\<close>

lemma halves_16_32:
  "(ucast (ucast (w :: u32) :: u16) :: u32) OR push_bit 16 (ucast (ucast (drop_bit 16 w) :: u16)) = w"
  by (rule bit_word_eqI) (auto simp: bit_simps)

lemma halves_32_64:
  "(ucast (ucast (w :: u64) :: u32) :: u64) OR push_bit 32 (ucast (ucast (drop_bit 32 w) :: u32)) = w"
  by (rule bit_word_eqI) (auto simp: bit_simps)

lemma ucast_ucast_small:
  assumes "unat (w :: 'a::len word) < 2 ^ LENGTH('b::len)"
  shows "(ucast (ucast w :: 'b word) :: 'a word) = w"
proof (rule word_unat_eq_iff [THEN iffD2])
  have "take_bit LENGTH('b) (unat w) = unat w"
    using assms by (simp add: take_bit_nat_eq_self_iff)
  moreover have "take_bit LENGTH('a) (unat w) = unat w"
    by (simp add: take_bit_nat_eq_self_iff)
  ultimately show "unat (ucast (ucast w :: 'b word) :: 'a word) = unat w"
    by (simp add: unsigned_ucast_eq unsigned_take_bit_eq)
qed

lemma ucast_up_eq_0:
  assumes "LENGTH('a::len) \<le> LENGTH('b::len)"
  shows "(ucast (x :: 'a word) :: 'b word) = 0 \<longleftrightarrow> x = 0"
proof
  assume z: "(ucast x :: 'b word) = 0"
  show "x = 0"
  proof (rule bit_word_eqI)
    fix n assume "n < LENGTH('a)"
    then show "bit x n = bit 0 n"
      using arg_cong [OF z, of "\<lambda>w. bit w n"] assms by (simp add: bit_simps)
  qed
qed simp

end
