(* ===== verification/Kernel_Gps.thy ===== *)
theory Kernel_Gps
  imports Ext2_Prelude
begin

text \<open>
  The kernel's current GPS location: \<open>include/linux/gps.h\<close> and the first half of
  \<open>kernel/gps.c\<close>. The kernel has no floating point, it only moves the bits of the doubles and
  floats it is given, so a coordinate is its bit pattern. User memory is read at three separate
  moments by \<open>set_gps_location\<close>; each read is an argument of the model of its own.
\<close>

section \<open>Data\<close>

record timespec =
  tv_sec :: u32
  tv_nsec :: u32

record gps_location =
  latitude :: u64
  longitude :: u64
  accuracy :: u32

record kernel_gps =
  loc :: gps_location
  timestamp :: timespec

record gps_on_disk =
  d_latitude :: u64
  d_longitude :: u64
  d_accuracy :: u32
  d_age :: u32

text \<open>The bits of the initial values 100.0, 1000.0 (double) and 100.0 (float).\<close>

definition kernel_gps_init :: kernel_gps where
  "kernel_gps_init =
     \<lparr>loc = \<lparr>latitude = 0x4059000000000000, longitude = 0x408F400000000000, accuracy = 0x42C80000\<rparr>,
      timestamp = \<lparr>tv_sec = 100, tv_nsec = 0\<rparr>\<rparr>"

text \<open>The reader-writer lock \<open>gps_lock\<close>: its reader count and whether a writer holds it.\<close>

record rwlock =
  rd_count :: int
  wr_held :: bool

record gps_state =
  cur_gps :: kernel_gps
  gps_lock :: rwlock

definition gps_boot :: gps_state where
  "gps_boot = \<lparr>cur_gps = kernel_gps_init, gps_lock = \<lparr>rd_count = 0, wr_held = False\<rparr>\<rparr>"

definition gps_read_lock :: "gps_state \<Rightarrow> gps_state" where
  "gps_read_lock s = s\<lparr>gps_lock := (gps_lock s)\<lparr>rd_count := rd_count (gps_lock s) + 1\<rparr>\<rparr>"

definition gps_read_unlock :: "gps_state \<Rightarrow> gps_state" where
  "gps_read_unlock s = s\<lparr>gps_lock := (gps_lock s)\<lparr>rd_count := rd_count (gps_lock s) - 1\<rparr>\<rparr>"

definition gps_write_lock :: "gps_state \<Rightarrow> gps_state" where
  "gps_write_lock s = s\<lparr>gps_lock := (gps_lock s)\<lparr>wr_held := True\<rparr>\<rparr>"

definition gps_write_unlock :: "gps_state \<Rightarrow> gps_state" where
  "gps_write_unlock s = s\<lparr>gps_lock := (gps_lock s)\<lparr>wr_held := False\<rparr>\<rparr>"

definition set_cur_loc :: "gps_location \<Rightarrow> gps_state \<Rightarrow> gps_state" where
  "set_cur_loc l s = s\<lparr>cur_gps := (cur_gps s)\<lparr>loc := l\<rparr>\<rparr>"

definition set_cur_timestamp :: "timespec \<Rightarrow> gps_state \<Rightarrow> gps_state" where
  "set_cur_timestamp t s = s\<lparr>cur_gps := (cur_gps s)\<lparr>timestamp := t\<rparr>\<rparr>"

section \<open>Operations\<close>

text \<open>\<open>*((unsigned long long *)&d)\<close>: the bits of a double, which is how the model holds it already.\<close>

definition double_to_long :: "u64 \<Rightarrow> u64" where
  "double_to_long d = d"

definition float_to_int :: "u32 \<Rightarrow> u32" where
  "float_to_int f = f"

text \<open>\<open>valid_gps\<close>; the argument is None for a NULL pointer.\<close>

definition valid_gps :: "gps_location option \<Rightarrow> int" where
  "valid_gps p =
     (let err_lat = double_to_long 0; err_lng = double_to_long 0; err_acc = float_to_int 0 in
      case p of
        None \<Rightarrow> - EINVAL
      | Some l \<Rightarrow>
          (let loc_lat = double_to_long (latitude l);
               loc_lng = double_to_long (longitude l);
               loc_acc = float_to_int (accuracy l) in
           if loc_lat = err_lat \<and> loc_lng = err_lng \<and> loc_acc = err_acc then - EINVAL else 0))"

text \<open>
  The outcome of \<open>copy_from_user\<close>: all bytes copied, or some left uncopied, in which case the
  destination holds what was copied with the rest zeroed.
\<close>

datatype copy_outcome = Copied gps_location | CopyFault gps_location

text \<open>
  The user pointer \<open>loc\<close> of \<open>set_gps_location\<close> and what its memory holds at the three moments
  the handler reads it: in \<open>valid_gps\<close> (a direct dereference, None when it faults), in
  \<open>copy_from_user\<close>, and in the final \<open>memcpy\<close> (a direct dereference again).
\<close>

record gps_user_arg =
  ua_null :: bool
  ua_check :: "gps_location option"
  ua_copy :: copy_outcome
  ua_memcpy :: "gps_location option"

text \<open>The result None is a kernel fault on one of the direct dereferences.\<close>

definition sys_set_gps_location ::
  "u32 \<Rightarrow> u32 \<Rightarrow> gps_user_arg \<Rightarrow> timespec \<Rightarrow> gps_state \<Rightarrow> int option \<times> gps_state" where
  "sys_set_gps_location uid euid a now s =
     (if uid \<noteq> 0 \<and> euid \<noteq> 0 then (Some (- EACCES), s)
      else if ua_null a then (if valid_gps None \<noteq> 0 then (Some (- EINVAL), s) else (None, s))
      else case ua_check a of
        None \<Rightarrow> (None, s)
      | Some l \<Rightarrow>
          if valid_gps (Some l) \<noteq> 0 then (Some (- EINVAL), s)
          else case ua_copy a of
            CopyFault d \<Rightarrow> (Some (- EFAULT), set_cur_loc d s)
          | Copied l' \<Rightarrow>
              (let s1 = gps_write_lock (set_cur_loc l' s);
                   s2 = set_cur_timestamp now s1 in
               case ua_memcpy a of
                 None \<Rightarrow> (None, s2)
               | Some l'' \<Rightarrow> (Some 0, gps_write_unlock (set_cur_loc l'' s2))))"

text \<open>\<open>get_current_location\<close>: the value stored through \<open>result\<close>; the caller never passes NULL.\<close>

definition get_current_location :: "gps_state \<Rightarrow> kernel_gps \<times> gps_state" where
  "get_current_location s =
     (let s1 = gps_read_lock s; r = cur_gps s1 in (r, gps_read_unlock s1))"

section \<open>Properties\<close>

lemmas gps_state_defs =
  gps_read_lock_def gps_read_unlock_def gps_write_lock_def gps_write_unlock_def
  set_cur_loc_def set_cur_timestamp_def

definition zero_location :: gps_location where
  "zero_location = \<lparr>latitude = 0, longitude = 0, accuracy = 0\<rparr>"

lemma valid_gps_iff: "valid_gps (Some l) = 0 \<longleftrightarrow> l \<noteq> zero_location"
  by (cases l) (auto simp: valid_gps_def double_to_long_def float_to_int_def zero_location_def)

lemma valid_gps_None [simp]: "valid_gps None = - EINVAL"
  by (simp add: valid_gps_def)

lemma get_current_location_eq [simp]: "get_current_location s = (cur_gps s, s)"
  by (simp add: get_current_location_def gps_state_defs)

text \<open>A user buffer nobody changes during the call: all three reads see the same location.\<close>

definition stable_arg :: "gps_location \<Rightarrow> gps_user_arg" where
  "stable_arg l = \<lparr>ua_null = False, ua_check = Some l, ua_copy = Copied l, ua_memcpy = Some l\<rparr>"

lemma sys_set_gps_location_stable:
  assumes "uid = 0 \<or> euid = 0" and "l \<noteq> zero_location"
  shows "sys_set_gps_location uid euid (stable_arg l) now s =
     (Some 0, s\<lparr>cur_gps := \<lparr>loc = l, timestamp = now\<rparr>, gps_lock := (gps_lock s)\<lparr>wr_held := False\<rparr>\<rparr>)"
  using assms valid_gps_iff [of l]
  by (auto simp: sys_set_gps_location_def stable_arg_def gps_state_defs Let_def)

text \<open>
  C19: a process that is neither root nor effectively root cannot change the kernel location, and
  neither can a NULL pointer or a location that reads as all zeroes: the call returns the error and
  leaves the location, its timestamp and the lock as they were.
\<close>

theorem set_gps_location_rejects:
  assumes "(uid \<noteq> 0 \<and> euid \<noteq> 0) \<or> ua_null a \<or> ua_check a = Some zero_location"
  shows "sys_set_gps_location uid euid a now s =
     (Some (if uid \<noteq> 0 \<and> euid \<noteq> 0 then - EACCES else - EINVAL), s)"
  using assms valid_gps_iff [of zero_location]
  by (auto simp: sys_set_gps_location_def)

theorem set_gps_location_rejects_witness:
  "sys_set_gps_location 1000 1000 (stable_arg (loc kernel_gps_init)) \<lparr>tv_sec = 7, tv_nsec = 0\<rparr> gps_boot
     = (Some (- EACCES), gps_boot)"
  using set_gps_location_rejects
    [of 1000 1000 "stable_arg (loc kernel_gps_init)" "\<lparr>tv_sec = 7, tv_nsec = 0\<rparr>" gps_boot]
  by simp

text \<open>
  C24: the check of the location and the store of the location read user memory separately, so
  a process that rewrites its buffer during the call stores the all-zero location that
  \<^const>\<open>valid_gps\<close> exists to refuse, and the call reports success.
\<close>

theorem set_gps_location_check_bypassed:
  assumes "uid = 0 \<or> euid = 0" and "l \<noteq> zero_location"
  shows "\<exists>a s'. ua_check a = Some l \<and> sys_set_gps_location uid euid a now s = (Some 0, s') \<and>
     loc (cur_gps s') = zero_location \<and> valid_gps (Some (loc (cur_gps s'))) = - EINVAL"
proof -
  define a where "a = (stable_arg l)\<lparr>ua_memcpy := Some zero_location\<rparr>"
  have "ua_check a = Some l"
    by (simp add: a_def stable_arg_def)
  moreover have "fst (sys_set_gps_location uid euid a now s) = Some 0"
    and "loc (cur_gps (snd (sys_set_gps_location uid euid a now s))) = zero_location"
    using assms valid_gps_iff [of l]
    by (auto simp: sys_set_gps_location_def a_def stable_arg_def gps_state_defs Let_def)
  moreover have "valid_gps (Some zero_location) = - EINVAL"
    by (simp add: valid_gps_def double_to_long_def float_to_int_def zero_location_def)
  ultimately show ?thesis
    by (metis prod.collapse)
qed

theorem set_gps_location_check_bypassed_witness:
  "\<exists>a s'. ua_check a = Some (loc kernel_gps_init) \<and>
     sys_set_gps_location 0 0 a \<lparr>tv_sec = 7, tv_nsec = 0\<rparr> gps_boot = (Some 0, s') \<and>
     loc (cur_gps s') = zero_location \<and> valid_gps (Some (loc (cur_gps s'))) = - EINVAL"
  by (rule set_gps_location_check_bypassed) (simp_all add: kernel_gps_init_def zero_location_def)

end
