(* ===== verification/Rbtree.thy ===== *)
theory Rbtree
  imports Main
begin

text \<open>
  The kernel's red-black tree, \<open>lib/rbtree.c\<close>, which holds the block reservation windows. A node is
  found through its parent pointers; the model keeps them as the path from the node to the root, so
  a pointer to a node is its subtree together with that path.
\<close>

section \<open>Trees and paths\<close>

datatype color = Red | Black

datatype 'a rbt = RbE | RbN color "'a rbt" 'a "'a rbt"

text \<open>One step of a path: the node is the left or the right child of a node with these fields.\<close>

datatype 'a step = LeftOf color 'a "'a rbt" | RightOf color "'a rbt" 'a

fun plug1 :: "'a step \<Rightarrow> 'a rbt \<Rightarrow> 'a rbt" where
  "plug1 (LeftOf c x r) t = RbN c t x r"
| "plug1 (RightOf c l x) t = RbN c l x t"

fun plug :: "'a step list \<Rightarrow> 'a rbt \<Rightarrow> 'a rbt" where
  "plug [] t = t"
| "plug (p # ps) t = plug ps (plug1 p t)"

fun inorder_rb :: "'a rbt \<Rightarrow> 'a list" where
  "inorder_rb RbE = []"
| "inorder_rb (RbN c l x r) = inorder_rb l @ x # inorder_rb r"

fun is_red :: "'a rbt \<Rightarrow> bool" where
  "is_red (RbN Red l x r) = True"
| "is_red t = False"

fun step_color :: "'a step \<Rightarrow> color" where
  "step_color (LeftOf c x r) = c"
| "step_color (RightOf c l x) = c"

fun rb_set_color :: "color \<Rightarrow> 'a rbt \<Rightarrow> 'a rbt" where
  "rb_set_color c RbE = RbE"
| "rb_set_color c (RbN d l x r) = RbN c l x r"

fun rb_rotate_left :: "'a rbt \<Rightarrow> 'a rbt" where
  "rb_rotate_left (RbN c l x (RbN d rl y rr)) = RbN d (RbN c l x rl) y rr"
| "rb_rotate_left t = t"

fun rb_rotate_right :: "'a rbt \<Rightarrow> 'a rbt" where
  "rb_rotate_right (RbN c (RbN d ll y lr) x r) = RbN d ll y (RbN c lr x r)"
| "rb_rotate_right t = t"

section \<open>Insertion\<close>

text \<open>
  \<open>rb_insert_color\<close>: the node is the subtree, its parent and grandparent are the first two steps of
  the path. The root is never red, so a red parent has a parent itself.
\<close>

fun rb_insert_color :: "'a rbt \<Rightarrow> 'a step list \<Rightarrow> 'a rbt" where
  "rb_insert_color t [] = rb_set_color Black t"
| "rb_insert_color t [p] = rb_set_color Black (plug [p] t)"
| "rb_insert_color t (p # LeftOf gc gx uncle # ps) =
     (if step_color p = Black then rb_set_color Black (plug (p # LeftOf gc gx uncle # ps) t)
      else if is_red uncle then
        rb_insert_color (RbN Red (rb_set_color Black (plug1 p t)) gx (rb_set_color Black uncle)) ps
      else
        let pt = (case p of RightOf _ _ _ \<Rightarrow> rb_rotate_left (plug1 p t) | LeftOf _ _ _ \<Rightarrow> plug1 p t) in
        rb_set_color Black (plug ps (rb_rotate_right (RbN Red (rb_set_color Black pt) gx uncle))))"
| "rb_insert_color t (p # RightOf gc uncle gx # ps) =
     (if step_color p = Black then rb_set_color Black (plug (p # RightOf gc uncle gx # ps) t)
      else if is_red uncle then
        rb_insert_color (RbN Red (rb_set_color Black uncle) gx (rb_set_color Black (plug1 p t))) ps
      else
        let pt = (case p of LeftOf _ _ _ \<Rightarrow> rb_rotate_right (plug1 p t) | RightOf _ _ _ \<Rightarrow> plug1 p t) in
        rb_set_color Black (plug ps (rb_rotate_left (RbN Red uncle gx (rb_set_color Black pt)))))"

section \<open>Deletion\<close>

fun left_of :: "'a rbt \<Rightarrow> 'a rbt" where
  "left_of (RbN c l x r) = l" | "left_of RbE = RbE"

fun right_of :: "'a rbt \<Rightarrow> 'a rbt" where
  "right_of (RbN c l x r) = r" | "right_of RbE = RbE"

fun set_left :: "'a rbt \<Rightarrow> 'a rbt \<Rightarrow> 'a rbt" where
  "set_left l' (RbN c l x r) = RbN c l' x r" | "set_left l' RbE = RbE"

fun set_right :: "'a rbt \<Rightarrow> 'a rbt \<Rightarrow> 'a rbt" where
  "set_right r' (RbN c l x r) = RbN c l x r'" | "set_right r' RbE = RbE"

text \<open>
  The last rotation at the parent, when the sibling has a red child: the sibling takes the parent's
  colour, the parent and the outer child turn black, and the loop ends at the root.
\<close>

definition erase_finish_left :: "color \<Rightarrow> 'a rbt \<Rightarrow> 'a \<Rightarrow> 'a rbt \<Rightarrow> 'a rbt" where
  "erase_finish_left pc t x other =
     (let other1 = (if \<not> is_red (right_of other)
                    then rb_rotate_right (rb_set_color Red (set_left (rb_set_color Black (left_of other)) other))
                    else other);
          other2 = rb_set_color pc (set_right (rb_set_color Black (right_of other1)) other1) in
      rb_rotate_left (RbN Black t x other2))"

definition erase_finish_right :: "color \<Rightarrow> 'a rbt \<Rightarrow> 'a \<Rightarrow> 'a rbt \<Rightarrow> 'a rbt" where
  "erase_finish_right pc other x t =
     (let other1 = (if \<not> is_red (left_of other)
                    then rb_rotate_left (rb_set_color Red (set_right (rb_set_color Black (right_of other)) other))
                    else other);
          other2 = rb_set_color pc (set_left (rb_set_color Black (left_of other1)) other1) in
      rb_rotate_right (RbN Black other2 x t))"

text \<open>The case that the sibling is red: after the rotation it is the parent's parent.\<close>

fun red_sibling_left :: "color \<Rightarrow> 'a \<Rightarrow> 'a rbt \<Rightarrow> 'a step list \<Rightarrow> color \<times> 'a rbt \<times> 'a step list" where
  "red_sibling_left pc x (RbN Red ol ox orr) ps = (Red, ol, LeftOf Black ox orr # ps)"
| "red_sibling_left pc x other ps = (pc, other, ps)"

fun red_sibling_right :: "color \<Rightarrow> 'a rbt \<Rightarrow> 'a \<Rightarrow> 'a step list \<Rightarrow> color \<times> 'a rbt \<times> 'a step list" where
  "red_sibling_right pc (RbN Red ol ox orr) x ps = (Red, orr, RightOf Black ol ox # ps)"
| "red_sibling_right pc other x ps = (pc, other, ps)"

function rb_erase_color :: "'a rbt \<Rightarrow> 'a step list \<Rightarrow> 'a rbt" where
  "rb_erase_color t [] = rb_set_color Black t"
| "rb_erase_color t (LeftOf c x sib # ps) =
     (if is_red t then plug (LeftOf c x sib # ps) (rb_set_color Black t)
      else
        let (pc, other, ps') = red_sibling_left c x sib ps in
        if \<not> is_red (left_of other) \<and> \<not> is_red (right_of other)
        then rb_erase_color (RbN pc t x (rb_set_color Red other)) ps'
        else rb_set_color Black (plug ps' (erase_finish_left pc t x other)))"
| "rb_erase_color t (RightOf c sib x # ps) =
     (if is_red t then plug (RightOf c sib x # ps) (rb_set_color Black t)
      else
        let (pc, other, ps') = red_sibling_right c sib x ps in
        if \<not> is_red (left_of other) \<and> \<not> is_red (right_of other)
        then rb_erase_color (RbN pc (rb_set_color Red other) x t) ps'
        else rb_set_color Black (plug ps' (erase_finish_right pc other x t)))"
  by pat_completeness auto

lemma red_sibling_measure:
  "red_sibling_left c x sib ps = (pc, other, ps') \<Longrightarrow> length ps' = length ps \<or> pc = Red \<and> length ps' = Suc (length ps)"
  "red_sibling_right c sib x ps = (pc, other, ps') \<Longrightarrow> length ps' = length ps \<or> pc = Red \<and> length ps' = Suc (length ps)"
  by (cases "(c, x, sib, ps)" rule: red_sibling_left.cases; auto)
    (cases "(c, sib, x, ps)" rule: red_sibling_right.cases; auto)

lemma is_red_N [simp]: "is_red (RbN c l x r) \<longleftrightarrow> c = Red"
  by (cases c) simp_all

text \<open>A red sibling lengthens the path by one, but the next node is red and ends the loop.\<close>

termination rb_erase_color
  by (relation "measure (\<lambda>(t, ps). 2 * length ps + (if is_red t then 0 else 1))")
    (auto dest!: red_sibling_measure(1) [OF sym] red_sibling_measure(2) [OF sym])

text \<open>The leftmost node below a subtree, with the path from it up.\<close>

fun rb_leftmost :: "color \<Rightarrow> 'a rbt \<Rightarrow> 'a \<Rightarrow> 'a rbt \<Rightarrow> 'a step list \<Rightarrow> (color \<times> 'a \<times> 'a rbt) \<times> 'a step list" where
  "rb_leftmost c RbE x r ps = ((c, x, r), ps)"
| "rb_leftmost c (RbN lc ll lx lr) x r ps = rb_leftmost lc ll lx lr (LeftOf c x r # ps)"

text \<open>
  \<open>rb_erase\<close> of the root of a subtree: a node with two children is replaced by its successor, which
  takes its colour, and the successor's place by the successor's right child.
\<close>

fun rb_erase :: "'a rbt \<Rightarrow> 'a step list \<Rightarrow> 'a rbt" where
  "rb_erase RbE ps = plug ps RbE"
| "rb_erase (RbN c RbE x r) ps = (if c = Black then rb_erase_color r ps else plug ps r)"
| "rb_erase (RbN c l x RbE) ps = (if c = Black then rb_erase_color l ps else plug ps l)"
| "rb_erase (RbN c l x (RbN rc rl rx rr)) ps =
     (let ((sc, sx, _), _) = rb_leftmost rc rl rx rr [];
          ((_, _, child), ps') = rb_leftmost rc rl rx rr (RightOf c l sx # ps) in
      if sc = Black then rb_erase_color child ps' else plug ps' child)"

section \<open>Walking\<close>

text \<open>The node with a given element: its subtree and path.\<close>

fun rb_locate :: "'a \<Rightarrow> 'a rbt \<Rightarrow> 'a step list \<Rightarrow> ('a rbt \<times> 'a step list) option" where
  "rb_locate x RbE ps = None"
| "rb_locate x (RbN c l y r) ps =
     (if x = y then Some (RbN c l y r, ps)
      else case rb_locate x l (LeftOf c y r # ps) of
        Some q \<Rightarrow> Some q
      | None \<Rightarrow> rb_locate x r (RightOf c l y # ps))"

fun rb_first :: "'a rbt \<Rightarrow> 'a option" where
  "rb_first RbE = None"
| "rb_first (RbN c RbE x r) = Some x"
| "rb_first (RbN c l x r) = rb_first l"

fun rb_last :: "'a rbt \<Rightarrow> 'a option" where
  "rb_last RbE = None"
| "rb_last (RbN c l x RbE) = Some x"
| "rb_last (RbN c l x r) = rb_last r"

fun climb_next :: "'a step list \<Rightarrow> 'a option" where
  "climb_next [] = None"
| "climb_next (RightOf c l x # ps) = climb_next ps"
| "climb_next (LeftOf c x r # ps) = Some x"

fun climb_prev :: "'a step list \<Rightarrow> 'a option" where
  "climb_prev [] = None"
| "climb_prev (LeftOf c x r # ps) = climb_prev ps"
| "climb_prev (RightOf c l x # ps) = Some x"

fun next_at :: "'a rbt \<Rightarrow> 'a step list \<Rightarrow> 'a option" where
  "next_at t ps = (if right_of t = RbE then climb_next ps else rb_first (right_of t))"

fun prev_at :: "'a rbt \<Rightarrow> 'a step list \<Rightarrow> 'a option" where
  "prev_at t ps = (if left_of t = RbE then climb_prev ps else rb_last (left_of t))"

definition rb_next :: "'a rbt \<Rightarrow> 'a \<Rightarrow> 'a option" where
  "rb_next root x = (case rb_locate x root [] of None \<Rightarrow> None | Some (t, ps) \<Rightarrow> next_at t ps)"

definition rb_prev :: "'a rbt \<Rightarrow> 'a \<Rightarrow> 'a option" where
  "rb_prev root x = (case rb_locate x root [] of None \<Rightarrow> None | Some (t, ps) \<Rightarrow> prev_at t ps)"

definition rb_remove :: "'a \<Rightarrow> 'a rbt \<Rightarrow> 'a rbt" where
  "rb_remove x root = (case rb_locate x root [] of None \<Rightarrow> root | Some (t, ps) \<Rightarrow> rb_erase t ps)"

section \<open>The order of the elements\<close>

fun before :: "'a step list \<Rightarrow> 'a list" where
  "before [] = []"
| "before (LeftOf c x r # ps) = before ps"
| "before (RightOf c l x # ps) = before ps @ inorder_rb l @ [x]"

fun after :: "'a step list \<Rightarrow> 'a list" where
  "after [] = []"
| "after (LeftOf c x r # ps) = x # inorder_rb r @ after ps"
| "after (RightOf c l x # ps) = after ps"

lemma inorder_plug: "inorder_rb (plug ps t) = before ps @ inorder_rb t @ after ps"
proof (induction ps arbitrary: t)
  case (Cons p ps)
  then show ?case by (cases p) simp_all
qed simp

lemma inorder_set_color [simp]: "inorder_rb (rb_set_color c t) = inorder_rb t"
  by (cases t) simp_all

lemma inorder_rotate [simp]:
  "inorder_rb (rb_rotate_left t) = inorder_rb t" "inorder_rb (rb_rotate_right t) = inorder_rb t"
  by (cases t rule: rb_rotate_left.cases; simp) (cases t rule: rb_rotate_right.cases; simp)

lemma inorder_insert_color:
  "inorder_rb (rb_insert_color t ps) = before ps @ inorder_rb t @ after ps"
proof (induction t ps rule: rb_insert_color.induct)
  case (2 t p)
  then show ?case by (cases p) simp_all
next
  case (3 t p gc gx uncle ps)
  then show ?case by (cases p) (auto simp: Let_def inorder_plug)
next
  case (4 t p gc uncle gx ps)
  then show ?case by (cases p) (auto simp: Let_def inorder_plug)
qed (simp_all add: inorder_plug)

lemma inorder_set_left_right [simp]:
  "inorder_rb (set_left (rb_set_color c (left_of t)) t) = inorder_rb t"
  "inorder_rb (set_right (rb_set_color c (right_of t)) t) = inorder_rb t"
  by (cases t; simp)+

lemma inorder_erase_finish [simp]:
  "inorder_rb (erase_finish_left pc t x other) = inorder_rb t @ x # inorder_rb other"
  "inorder_rb (erase_finish_right pc other x t) = inorder_rb other @ x # inorder_rb t"
  by (simp_all add: erase_finish_left_def erase_finish_right_def Let_def)

lemma red_sibling_order:
  "red_sibling_left c x sib ps = (pc, other, ps') \<Longrightarrow>
     before ps' = before ps \<and> inorder_rb other @ after ps' = inorder_rb sib @ after ps"
  "red_sibling_right c sib x ps = (pc, other, ps') \<Longrightarrow>
     before ps' @ inorder_rb other = before ps @ inorder_rb sib \<and> after ps' = after ps"
  by (cases "(c, x, sib, ps)" rule: red_sibling_left.cases; auto)
    (cases "(c, sib, x, ps)" rule: red_sibling_right.cases; auto)

lemma inorder_erase_color:
  "inorder_rb (rb_erase_color t ps) = before ps @ inorder_rb t @ after ps"
proof (induction t ps rule: rb_erase_color.induct)
  case (2 t c x sib ps)
  obtain pc other ps' where rs: "red_sibling_left c x sib ps = (pc, other, ps')" by (metis prod_cases3)
  then show ?case
    using "2.IH" red_sibling_order(1) [OF rs] by (auto simp: inorder_plug)
next
  case (3 t c sib x ps)
  obtain pc other ps' where rs: "red_sibling_right c sib x ps = (pc, other, ps')" by (metis prod_cases3)
  have "before ps' @ inorder_rb other @ zs = before ps @ inorder_rb sib @ zs" for zs
    using red_sibling_order(2) [OF rs] by (metis append.assoc)
  then show ?case
    using "3.IH" rs red_sibling_order(2) [OF rs] by (auto simp: inorder_plug)
qed simp

lemma rb_leftmost_order:
  "rb_leftmost c l x r ps = ((sc, sx, sr), ps') \<Longrightarrow>
     before ps' = before ps \<and> sx # inorder_rb sr @ after ps' = inorder_rb (RbN c l x r) @ after ps"
  by (induction c l x r ps rule: rb_leftmost.induct) auto

lemma rb_leftmost_node:
  "fst (rb_leftmost c l x r ps) = fst (rb_leftmost c l x r ps')"
  by (induction c l x r ps arbitrary: ps' rule: rb_leftmost.induct) auto

lemma inorder_erase:
  "inorder_rb (rb_erase (RbN c l x r) ps) = before ps @ inorder_rb l @ inorder_rb r @ after ps"
proof (cases "l = RbE \<or> r = RbE")
  case True
  then show ?thesis
    by (cases l; cases r) (auto simp: inorder_plug inorder_erase_color)
next
  case False
  then obtain rc rl rx rr lc ll lx lr where r: "r = RbN rc rl rx rr" and l: "l = RbN lc ll lx lr"
    by (cases r; cases l) auto
  obtain sc sx sr p0 where a: "rb_leftmost rc rl rx rr [] = ((sc, sx, sr), p0)" by (metis prod.collapse)
  obtain ps' where b: "rb_leftmost rc rl rx rr (RightOf c l sx # ps) = ((sc, sx, sr), ps')"
    using rb_leftmost_node [of rc rl rx rr "[]" "RightOf c l sx # ps"] a by (metis fst_conv prod.collapse)
  show ?thesis
    using rb_leftmost_order [OF b] b unfolding l
    by (auto simp: r a inorder_plug inorder_erase_color)
qed

lemma rb_locate_Some:
  "rb_locate x t ps = Some (t', ps') \<Longrightarrow> plug ps' t' = plug ps t \<and> (\<exists>c l r. t' = RbN c l x r)"
  by (induction x t ps rule: rb_locate.induct) (auto split: if_splits option.splits)

lemma rb_locate_None: "rb_locate x t ps = None \<longleftrightarrow> x \<notin> set (inorder_rb t)"
  by (induction x t ps rule: rb_locate.induct) (auto split: if_splits option.splits)

text \<open>Where a located node stands in the order.\<close>

lemma rb_locate_split:
  assumes "rb_locate x root [] = Some (t, ps)"
  obtains c l r where "t = RbN c l x r"
    "inorder_rb root = (before ps @ inorder_rb l) @ x # (inorder_rb r @ after ps)"
proof -
  from rb_locate_Some [OF assms] obtain c l r where t: "t = RbN c l x r" and p: "plug ps t = root" by auto
  have "inorder_rb root = (before ps @ inorder_rb l) @ x # (inorder_rb r @ after ps)"
    unfolding p [symmetric] t by (simp add: inorder_plug)
  with t show ?thesis using that by blast
qed

lemma inorder_remove:
  assumes "distinct (inorder_rb root)"
  shows "inorder_rb (rb_remove x root) = remove1 x (inorder_rb root)"
proof (cases "rb_locate x root []")
  case None
  then have "x \<notin> set (inorder_rb root)" by (simp add: rb_locate_None)
  with None show ?thesis by (simp add: rb_remove_def remove1_idem)
next
  case (Some q)
  obtain t ps where q: "q = (t, ps)" by fastforce
  obtain c l r where t: "t = RbN c l x r"
    and o: "inorder_rb root = (before ps @ inorder_rb l) @ x # (inorder_rb r @ after ps)"
    using rb_locate_split [of x root t ps] Some q by blast
  show ?thesis
    using assms unfolding o by (simp add: rb_remove_def Some q t inorder_erase remove1_append)
qed

lemma rb_first_hd: "rb_first t = (if inorder_rb t = [] then None else Some (hd (inorder_rb t)))"
  by (induction t rule: rb_first.induct) (auto simp: hd_append)

lemma rb_last_last: "rb_last t = (if inorder_rb t = [] then None else Some (last (inorder_rb t)))"
  by (induction t rule: rb_last.induct) auto

lemma climb_next_hd: "climb_next ps = (if after ps = [] then None else Some (hd (after ps)))"
  by (induction ps rule: climb_next.induct) auto

lemma climb_prev_last: "climb_prev ps = (if before ps = [] then None else Some (last (before ps)))"
  by (induction ps rule: climb_prev.induct) auto

lemma inorder_empty: "inorder_rb t = [] \<longleftrightarrow> t = RbE"
  by (cases t) auto

lemma rb_next_order:
  assumes "inorder_rb root = xs @ x # ys" "distinct (inorder_rb root)"
  shows "rb_next root x = (if ys = [] then None else Some (hd ys))"
proof (cases "rb_locate x root []")
  case None
  then show ?thesis using assms by (simp add: rb_locate_None)
next
  case (Some q)
  obtain t ps where q: "q = (t, ps)" by fastforce
  obtain c l r where t: "t = RbN c l x r"
    and o: "inorder_rb root = (before ps @ inorder_rb l) @ x # (inorder_rb r @ after ps)"
    using rb_locate_split [of x root t ps] Some q by blast
  have "ys = inorder_rb r @ after ps"
    using assms o append_Cons_eq_iff [of x xs ys "before ps @ inorder_rb l" "inorder_rb r @ after ps"] by auto
  then show ?thesis
    by (cases "r = RbE") (auto simp: rb_next_def Some q t climb_next_hd rb_first_hd inorder_empty)
qed

lemma rb_prev_order:
  assumes "inorder_rb root = xs @ x # ys" "distinct (inorder_rb root)"
  shows "rb_prev root x = (if xs = [] then None else Some (last xs))"
proof (cases "rb_locate x root []")
  case None
  then show ?thesis using assms by (simp add: rb_locate_None)
next
  case (Some q)
  obtain t ps where q: "q = (t, ps)" by fastforce
  obtain c l r where t: "t = RbN c l x r"
    and o: "inorder_rb root = (before ps @ inorder_rb l) @ x # (inorder_rb r @ after ps)"
    using rb_locate_split [of x root t ps] Some q by blast
  have "xs = before ps @ inorder_rb l"
    using assms o append_Cons_eq_iff [of x xs ys "before ps @ inorder_rb l" "inorder_rb r @ after ps"] by auto
  then show ?thesis
    by (cases "l = RbE") (auto simp: rb_prev_def Some q t climb_prev_last rb_last_last inorder_empty)
qed

section \<open>Balance\<close>

fun bheight :: "'a rbt \<Rightarrow> nat" where
  "bheight RbE = 0"
| "bheight (RbN c l x r) = bheight l + (if c = Black then 1 else 0)"

fun rb_inv :: "'a rbt \<Rightarrow> bool" where
  "rb_inv RbE = True"
| "rb_inv (RbN c l x r) \<longleftrightarrow> rb_inv l \<and> rb_inv r \<and> bheight l = bheight r \<and> (c = Red \<longrightarrow> \<not> is_red l \<and> \<not> is_red r)"

definition rb_ok :: "'a rbt \<Rightarrow> bool" where
  "rb_ok t \<longleftrightarrow> rb_inv t \<and> \<not> is_red t"

fun sibling :: "'a step \<Rightarrow> 'a rbt" where
  "sibling (LeftOf c x r) = r"
| "sibling (RightOf c l x) = l"

abbreviation bplus :: "color \<Rightarrow> nat" where
  "bplus c \<equiv> (if c = Black then 1 else 0)"

text \<open>A path that makes a balanced tree of a balanced subtree of black height \<open>h\<close>.\<close>

definition black_above :: "'a step list \<Rightarrow> bool" where
  "black_above ps \<longleftrightarrow> ps \<noteq> [] \<and> step_color (hd ps) = Black"

fun fits :: "'a step list \<Rightarrow> nat \<Rightarrow> bool" where
  "fits [] h = True"
| "fits (p # ps) h \<longleftrightarrow> rb_inv (sibling p) \<and> bheight (sibling p) = h \<and>
     (step_color p = Red \<longrightarrow> \<not> is_red (sibling p) \<and> black_above ps) \<and> fits ps (h + bplus (step_color p))"

lemma set_black_id [simp]: "\<not> is_red t \<Longrightarrow> rb_set_color Black t = t"
  by (cases t) (auto, metis color.exhaust)

lemma color_cases: "c = Red \<or> c = Black"
  by (cases c) simp_all

lemma plug_ok:
  "rb_inv t \<Longrightarrow> fits ps (bheight t) \<Longrightarrow> is_red t \<Longrightarrow> black_above ps \<Longrightarrow> rb_ok (plug ps t)"
  "rb_inv t \<Longrightarrow> fits ps (bheight t) \<Longrightarrow> \<not> is_red t \<Longrightarrow> rb_ok (plug ps t)"
proof (induction ps arbitrary: t)
  case (Cons p ps)
  { case 1
    then show ?case using Cons.IH(2) [of "plug1 p t"] by (cases p) (auto simp: black_above_def) }
  { case 2
    then show ?case using Cons.IH [of "plug1 p t"] color_cases [of "step_color p"]
      by (cases p) auto }
qed (simp_all add: rb_ok_def black_above_def)

lemma unplug_ok:
  "rb_ok (plug ps t) \<Longrightarrow> rb_inv t \<and> fits ps (bheight t) \<and> (is_red t \<longrightarrow> black_above ps)"
proof (induction ps arbitrary: t)
  case (Cons p ps)
  then have "rb_inv (plug1 p t) \<and> fits ps (bheight (plug1 p t)) \<and> (is_red (plug1 p t) \<longrightarrow> black_above ps)"
    by simp
  then show ?case using color_cases [of "step_color p"] by (cases p) (auto simp: black_above_def)
qed (simp add: rb_ok_def)


lemma set_black_inv [simp]:
  "rb_inv t \<Longrightarrow> rb_inv (rb_set_color Black t)" "\<not> is_red (rb_set_color Black t)"
  "is_red t \<Longrightarrow> bheight (rb_set_color Black t) = Suc (bheight t)"
  by (cases t; simp)+

lemma rb_ok_black [simp]: "rb_ok t \<Longrightarrow> rb_ok (rb_set_color Black t)"
  by (simp add: rb_ok_def)

lemma rb_insert_color_ok:
  "rb_inv t \<Longrightarrow> is_red t \<Longrightarrow> fits ps (bheight t) \<Longrightarrow> rb_ok (rb_insert_color t ps)"
proof (induction t ps rule: rb_insert_color.induct)
  case (1 t)
  then show ?case by (cases t) (auto simp: rb_ok_def)
next
  case (2 t p)
  then have "black_above [p]" using color_cases [of "step_color p"] by (auto simp: black_above_def)
  then show ?case using 2 plug_ok(1) [of t "[p]"] by simp
next
  case (3 t p gc gx uncle ps)
  show ?case
  proof (cases "step_color p = Black")
    case True
    then show ?thesis
      using 3 plug_ok(1) [of t "p # LeftOf gc gx uncle # ps"] by (simp add: black_above_def)
  next
    case False
    then have "gc = Black" "step_color p = Red"
      using "3.prems"(3) color_cases [of "step_color p"] by (auto simp: black_above_def)
    then show ?thesis
      using "3.prems" "3.IH" False plug_ok(2) [of _ ps]
      by (cases t; cases p) (auto simp: Let_def)
  qed
next
  case (4 t p gc uncle gx ps)
  show ?case
  proof (cases "step_color p = Black")
    case True
    then show ?thesis
      using 4 plug_ok(1) [of t "p # RightOf gc uncle gx # ps"] by (simp add: black_above_def)
  next
    case False
    then have "gc = Black" "step_color p = Red"
      using "4.prems"(3) color_cases [of "step_color p"] by (auto simp: black_above_def)
    then show ?thesis
      using "4.prems" "4.IH" False plug_ok(2) [of _ ps]
      by (cases t; cases p) (auto simp: Let_def)
  qed
qed

text \<open>The sibling after the case of a red sibling: black, on a path that still fits.\<close>

lemma red_sibling_left_fits:
  assumes "red_sibling_left c x sib ps = (pc, other, ps')" "fits (LeftOf c x sib # ps) (Suc h)"
  shows "fits (LeftOf pc x other # ps') (Suc h)" "\<not> is_red other"
  using assms color_cases [of c]
  by (cases "(c, x, sib, ps)" rule: red_sibling_left.cases; auto simp: black_above_def)+

lemma red_sibling_right_fits:
  assumes "red_sibling_right c sib x ps = (pc, other, ps')" "fits (RightOf c sib x # ps) (Suc h)"
  shows "fits (RightOf pc other x # ps') (Suc h)" "\<not> is_red other"
  using assms color_cases [of c]
  by (cases "(c, sib, x, ps)" rule: red_sibling_right.cases; auto simp: black_above_def)+

lemma erase_finish_ok:
  assumes "rb_inv t" "\<not> is_red t" "bheight t = h" "rb_inv other" "\<not> is_red other" "bheight other = Suc h"
    and "is_red (left_of other) \<or> is_red (right_of other)"
  shows "rb_inv (erase_finish_left pc t x other)" "bheight (erase_finish_left pc t x other) = Suc h + bplus pc"
    "is_red (erase_finish_left pc t x other) \<longleftrightarrow> pc = Red"
    "rb_inv (erase_finish_right pc other x t)" "bheight (erase_finish_right pc other x t) = Suc h + bplus pc"
    "is_red (erase_finish_right pc other x t) \<longleftrightarrow> pc = Red"
proof -
  obtain ol ox orr where o: "other = RbN Black ol ox orr"
    using assms(5,6) by (cases other) (auto, metis color.exhaust)
  show "rb_inv (erase_finish_left pc t x other)" "bheight (erase_finish_left pc t x other) = Suc h + bplus pc"
    "is_red (erase_finish_left pc t x other) \<longleftrightarrow> pc = Red"
    using assms by (cases ol; auto simp: erase_finish_left_def o Let_def)+
  show "rb_inv (erase_finish_right pc other x t)" "bheight (erase_finish_right pc other x t) = Suc h + bplus pc"
    "is_red (erase_finish_right pc other x t) \<longleftrightarrow> pc = Red"
    using assms by (cases orr; auto simp: erase_finish_right_def o Let_def)+
qed

lemma black_inner:
  "\<not> is_red other \<Longrightarrow> bheight other = Suc h \<Longrightarrow> \<exists>l x r. other = RbN Black l x r"
  by (cases other) (auto, metis color.exhaust)

lemma plug_any_ok:
  "rb_inv t \<Longrightarrow> fits ps (bheight t) \<Longrightarrow> (is_red t \<longrightarrow> black_above ps) \<Longrightarrow> rb_ok (plug ps t)"
  using plug_ok by blast

lemma rb_erase_color_ok:
  "rb_inv (rb_set_color Black t) \<Longrightarrow> fits ps (Suc (bheight t)) \<Longrightarrow> rb_ok (rb_erase_color t ps)"
proof (induction t ps rule: rb_erase_color.induct)
  case (1 t)
  then show ?case by (simp add: rb_ok_def)
next
  case (2 t c x sib ps)
  show ?case
  proof (cases "is_red t")
    case True
    then show ?thesis using 2 plug_ok(2) [of "rb_set_color Black t" "LeftOf c x sib # ps"] by simp
  next
    case False
    obtain pc other ps' where rs: "red_sibling_left c x sib ps = (pc, other, ps')" by (metis prod_cases3)
    note f = red_sibling_left_fits [OF rs "2.prems"(2)]
    then obtain ol ox orr where o: "other = RbN Black ol ox orr" using black_inner [of other] by auto
    show ?thesis
    proof (cases "\<not> is_red (left_of other) \<and> \<not> is_red (right_of other)")
      case True
      then show ?thesis
        using "2.IH" [OF False rs [symmetric] refl refl True] f False "2.prems"(1) rs by (auto simp: o)
    next
      case neg: False
      with erase_finish_ok [of t "bheight t" other pc x] f False "2.prems"(1)
      have "rb_ok (plug ps' (erase_finish_left pc t x other))"
        by (intro plug_any_ok) auto
      then show ?thesis using False neg rs by auto
    qed
  qed
next
  case (3 t c sib x ps)
  show ?case
  proof (cases "is_red t")
    case True
    then show ?thesis using 3 plug_ok(2) [of "rb_set_color Black t" "RightOf c sib x # ps"] by simp
  next
    case False
    obtain pc other ps' where rs: "red_sibling_right c sib x ps = (pc, other, ps')" by (metis prod_cases3)
    note f = red_sibling_right_fits [OF rs "3.prems"(2)]
    then obtain ol ox orr where o: "other = RbN Black ol ox orr" using black_inner [of other] by auto
    show ?thesis
    proof (cases "\<not> is_red (left_of other) \<and> \<not> is_red (right_of other)")
      case True
      then show ?thesis
        using "3.IH" [OF False rs [symmetric] refl refl True] f False "3.prems"(1) rs by (auto simp: o)
    next
      case neg: False
      with erase_finish_ok [of t "bheight t" other pc x] f False "3.prems"(1)
      have "rb_ok (plug ps' (erase_finish_right pc other x t))"
        by (intro plug_any_ok) auto
      then show ?thesis using False neg rs by auto
    qed
  qed
qed

lemma rb_leftmost_ok:
  "rb_leftmost c l x r ps = ((sc, sx, sr), ps') \<Longrightarrow> rb_inv (RbN c l x r) \<Longrightarrow> fits ps (bheight (RbN c l x r)) \<Longrightarrow>
     (c = Red \<longrightarrow> black_above ps) \<Longrightarrow>
     rb_inv sr \<and> fits ps' (bheight sr + bplus sc) \<and> (sc = Red \<longrightarrow> \<not> is_red sr)"
proof (induction c l x r ps rule: rb_leftmost.induct)
  case (2 c lc ll lx lr x r ps)
  then show ?case using color_cases [of c] by (auto simp: black_above_def)
qed auto

lemma rb_erase_ok:
  assumes "rb_ok (plug ps (RbN c l x r))"
  shows "rb_ok (rb_erase (RbN c l x r) ps)"
proof -
  have u: "rb_inv (RbN c l x r)" "fits ps (bheight (RbN c l x r))" "c = Red \<longrightarrow> black_above ps"
    using unplug_ok [OF assms] by auto
  show ?thesis
  proof (cases "l = RbE \<or> r = RbE")
    case True
    then show ?thesis
      using u color_cases [of c] by (cases l; cases r) (auto intro!: rb_erase_color_ok plug_ok(2))
  next
    case False
    then obtain rc rl rx rr lc ll lx lr where r: "r = RbN rc rl rx rr" and l: "l = RbN lc ll lx lr"
      by (cases r; cases l) auto
    obtain sc sx sr p0 where a: "rb_leftmost rc rl rx rr [] = ((sc, sx, sr), p0)" by (metis prod.collapse)
    obtain ps' where b: "rb_leftmost rc rl rx rr (RightOf c l sx # ps) = ((sc, sx, sr), ps')"
      using rb_leftmost_node [of rc rl rx rr "[]" "RightOf c l sx # ps"] a by (metis fst_conv prod.collapse)
    have "rb_inv sr \<and> fits ps' (bheight sr + bplus sc) \<and> (sc = Red \<longrightarrow> \<not> is_red sr)"
      using u color_cases [of c] by (intro rb_leftmost_ok [OF b]) (auto simp: r black_above_def)
    then show ?thesis
      using b color_cases [of sc] unfolding l by (auto simp: r a intro!: rb_erase_color_ok plug_ok(2))
  qed
qed

lemma rb_remove_ok: "rb_ok root \<Longrightarrow> rb_ok (rb_remove x root)"
  by (auto simp: rb_remove_def rb_erase_ok dest!: rb_locate_Some split: option.splits)

section \<open>Properties\<close>

fun height_rb :: "'a rbt \<Rightarrow> nat" where
  "height_rb RbE = 0"
| "height_rb (RbN c l x r) = Suc (max (height_rb l) (height_rb r))"

lemma rb_size_bound: "rb_inv t \<Longrightarrow> 2 ^ bheight t \<le> length (inorder_rb t) + 1"
proof (induction t)
  case (RbN c l x r)
  then show ?case by (cases c) (auto simp: mult_2)
qed simp

lemma rb_height_bound: "rb_inv t \<Longrightarrow> height_rb t \<le> 2 * bheight t + (if is_red t then 1 else 0)"
proof (induction t)
  case (RbN c l x r)
  then show ?case by (cases c) (auto split: if_splits)
qed simp

text \<open>
  C16: linking a new node at the end of a search path and recolouring gives a red-black tree again,
  with the node between the elements before and after the place where it was linked.
\<close>

theorem rb_insert_correct:
  assumes "rb_ok root" and "plug ps RbE = root"
  shows "rb_ok (rb_insert_color (RbN Red RbE x RbE) ps) \<and>
    inorder_rb (rb_insert_color (RbN Red RbE x RbE) ps) = before ps @ x # after ps \<and>
    inorder_rb root = before ps @ after ps"
proof -
  have "fits ps (bheight RbE)" using unplug_ok [of ps RbE] assms by simp
  then show ?thesis
    using inorder_plug [of ps RbE] assms(2) by (auto simp: inorder_insert_color intro: rb_insert_color_ok)
qed

theorem rb_insert_correct_witness:
  "rb_ok (rb_insert_color (RbN Red RbE (7::nat) RbE) [RightOf Red RbE 5, RightOf Black RbE 3])"
proof -
  let ?root = "RbN Black RbE (3::nat) (RbN Red RbE 5 RbE)"
  have "rb_ok ?root" "plug [RightOf Red RbE 5, RightOf Black RbE 3] RbE = ?root" by (simp_all add: rb_ok_def)
  then show ?thesis using rb_insert_correct [of ?root "[RightOf Red RbE 5, RightOf Black RbE 3]" 7] by blast
qed

text \<open>
  C15: erasing an element leaves a red-black tree with the other elements in the same order. In every
  red-black tree the number of nodes on a path is at most twice the logarithm of the number of
  elements plus one, so each operation takes that many steps.
\<close>

theorem rb_remove_correct:
  assumes "rb_ok root" and "distinct (inorder_rb root)"
  shows "rb_ok (rb_remove x root) \<and> inorder_rb (rb_remove x root) = remove1 x (inorder_rb root) \<and>
    2 ^ height_rb root \<le> (length (inorder_rb root) + 1) ^ 2"
proof -
  have inv: "rb_inv root" "\<not> is_red root" using assms(1) by (simp_all add: rb_ok_def)
  have "2 ^ height_rb root \<le> (2::nat) ^ (2 * bheight root)"
    using rb_height_bound [OF inv(1)] inv(2) by (intro power_increasing) simp_all
  also have "\<dots> = (2 ^ bheight root) ^ 2" by (simp add: power_mult [symmetric] mult.commute)
  also have "\<dots> \<le> (length (inorder_rb root) + 1) ^ 2" by (intro power_mono rb_size_bound inv(1)) simp
  finally show ?thesis using assms by (simp add: rb_remove_ok inorder_remove)
qed

theorem rb_remove_correct_witness:
  "rb_ok (rb_remove 3 (RbN Black (RbN Black RbE (1::nat) RbE) 3 (RbN Black RbE 5 RbE))) \<and>
   inorder_rb (rb_remove 3 (RbN Black (RbN Black RbE (1::nat) RbE) 3 (RbN Black RbE 5 RbE))) = [1, 5]"
  using rb_remove_correct [of "RbN Black (RbN Black RbE (1::nat) RbE) 3 (RbN Black RbE 5 RbE)" 3]
  by (simp add: rb_ok_def)

end
