(* ===== verification/Ext2_Types.thy ===== *)
theory Ext2_Types
  imports Kernel_Gps Rbtree
begin

text \<open>
  The data of the file system: the constants and structures of \<open>include/linux/ext2_fs.h\<close>,
  \<open>include/linux/ext2_fs_sb.h\<close> and \<open>fs/ext2/ext2.h\<close>, the part of the VFS inode and superblock that
  ext2 uses, and the state of the whole file system that the operations of the later theories pass
  along. Fields of the on-disk superblock carry the prefix \<open>es_\<close>; on-disk integers of the superblock
  and the group descriptors are held decoded, raw inodes, directory pages, bitmaps and indirect
  blocks are held as bytes.
\<close>

section \<open>Modes, flags and options\<close>

definition has_flag :: "'a::len word \<Rightarrow> 'a word \<Rightarrow> bool" where
  "has_flag x m \<longleftrightarrow> x AND m \<noteq> 0"

definition S_ISREG :: "u16 \<Rightarrow> bool" where "S_ISREG m \<longleftrightarrow> m AND 0xF000 = 0x8000"
definition S_ISDIR :: "u16 \<Rightarrow> bool" where "S_ISDIR m \<longleftrightarrow> m AND 0xF000 = 0x4000"
definition S_ISLNK :: "u16 \<Rightarrow> bool" where "S_ISLNK m \<longleftrightarrow> m AND 0xF000 = 0xA000"
definition S_ISCHR :: "u16 \<Rightarrow> bool" where "S_ISCHR m \<longleftrightarrow> m AND 0xF000 = 0x2000"
definition S_ISBLK :: "u16 \<Rightarrow> bool" where "S_ISBLK m \<longleftrightarrow> m AND 0xF000 = 0x6000"
definition S_ISFIFO :: "u16 \<Rightarrow> bool" where "S_ISFIFO m \<longleftrightarrow> m AND 0xF000 = 0x1000"
definition S_ISSOCK :: "u16 \<Rightarrow> bool" where "S_ISSOCK m \<longleftrightarrow> m AND 0xF000 = 0xC000"

abbreviation "S_IFSOCK \<equiv> 0xC000 :: u16"
abbreviation "S_IFLNK \<equiv> 0xA000 :: u16"
abbreviation "S_IFREG \<equiv> 0x8000 :: u16"
abbreviation "S_IFBLK \<equiv> 0x6000 :: u16"
abbreviation "S_IFDIR \<equiv> 0x4000 :: u16"
abbreviation "S_IFCHR \<equiv> 0x2000 :: u16"
abbreviation "S_IFIFO \<equiv> 0x1000 :: u16"

abbreviation "S_SYNC \<equiv> 1 :: u32"
abbreviation "S_NOATIME \<equiv> 2 :: u32"
abbreviation "S_APPEND \<equiv> 4 :: u32"
abbreviation "S_IMMUTABLE \<equiv> 8 :: u32"
abbreviation "S_NOQUOTA \<equiv> 32 :: u32"
abbreviation "S_DIRSYNC \<equiv> 64 :: u32"

abbreviation "EXT2_SECRM_FL \<equiv> 0x1 :: u32"
abbreviation "EXT2_UNRM_FL \<equiv> 0x2 :: u32"
abbreviation "EXT2_COMPR_FL \<equiv> 0x4 :: u32"
abbreviation "EXT2_SYNC_FL \<equiv> 0x8 :: u32"
abbreviation "EXT2_IMMUTABLE_FL \<equiv> 0x10 :: u32"
abbreviation "EXT2_APPEND_FL \<equiv> 0x20 :: u32"
abbreviation "EXT2_NODUMP_FL \<equiv> 0x40 :: u32"
abbreviation "EXT2_NOATIME_FL \<equiv> 0x80 :: u32"
abbreviation "EXT2_COMPRBLK_FL \<equiv> 0x200 :: u32"
abbreviation "EXT2_NOCOMP_FL \<equiv> 0x400 :: u32"
abbreviation "EXT2_BTREE_FL \<equiv> 0x1000 :: u32"
abbreviation "EXT2_JOURNAL_DATA_FL \<equiv> 0x4000 :: u32"
abbreviation "EXT2_NOTAIL_FL \<equiv> 0x8000 :: u32"
abbreviation "EXT2_DIRSYNC_FL \<equiv> 0x10000 :: u32"
abbreviation "EXT2_TOPDIR_FL \<equiv> 0x20000 :: u32"
abbreviation "EXT2_FL_USER_VISIBLE \<equiv> 0x3DFFF :: u32"
abbreviation "EXT2_FL_USER_MODIFIABLE \<equiv> 0x380FF :: u32"

definition EXT2_FL_INHERITED :: u32 where
  "EXT2_FL_INHERITED =
     EXT2_SECRM_FL OR EXT2_UNRM_FL OR EXT2_COMPR_FL OR EXT2_SYNC_FL OR EXT2_NODUMP_FL OR
     EXT2_NOATIME_FL OR EXT2_COMPRBLK_FL OR EXT2_NOCOMP_FL OR EXT2_JOURNAL_DATA_FL OR
     EXT2_NOTAIL_FL OR EXT2_DIRSYNC_FL"

definition EXT2_REG_FLMASK :: u32 where
  "EXT2_REG_FLMASK = NOT (EXT2_DIRSYNC_FL OR EXT2_TOPDIR_FL)"

definition EXT2_OTHER_FLMASK :: u32 where
  "EXT2_OTHER_FLMASK = EXT2_NODUMP_FL OR EXT2_NOATIME_FL"

definition ext2_mask_flags :: "u16 \<Rightarrow> u32 \<Rightarrow> u32" where
  "ext2_mask_flags mode flags =
     (if S_ISDIR mode then flags
      else if S_ISREG mode then flags AND EXT2_REG_FLMASK
      else flags AND EXT2_OTHER_FLMASK)"

abbreviation "EXT2_VALID_FS \<equiv> 1 :: u16"
abbreviation "EXT2_ERROR_FS \<equiv> 2 :: u16"

abbreviation "MOUNT_CHECK \<equiv> 0x1 :: u32"
abbreviation "MOUNT_OLDALLOC \<equiv> 0x2 :: u32"
abbreviation "MOUNT_GRPID \<equiv> 0x4 :: u32"
abbreviation "MOUNT_DEBUG \<equiv> 0x8 :: u32"
abbreviation "MOUNT_ERRORS_CONT \<equiv> 0x10 :: u32"
abbreviation "MOUNT_ERRORS_RO \<equiv> 0x20 :: u32"
abbreviation "MOUNT_ERRORS_PANIC \<equiv> 0x40 :: u32"
abbreviation "MOUNT_MINIX_DF \<equiv> 0x80 :: u32"
abbreviation "MOUNT_NOBH \<equiv> 0x100 :: u32"
abbreviation "MOUNT_NO_UID32 \<equiv> 0x200 :: u32"
abbreviation "MOUNT_XATTR_USER \<equiv> 0x4000 :: u32"
abbreviation "MOUNT_POSIX_ACL \<equiv> 0x8000 :: u32"
abbreviation "MOUNT_XIP \<equiv> 0x10000 :: u32"
abbreviation "MOUNT_USRQUOTA \<equiv> 0x20000 :: u32"
abbreviation "MOUNT_GRPQUOTA \<equiv> 0x40000 :: u32"
abbreviation "MOUNT_RESERVATION \<equiv> 0x80000 :: u32"

abbreviation "MS_RDONLY \<equiv> 1 :: u32"
abbreviation "MS_SYNCHRONOUS \<equiv> 16 :: u32"
abbreviation "MS_DIRSYNC \<equiv> 128 :: u32"
abbreviation "MS_POSIXACL \<equiv> 0x10000 :: u32"

abbreviation "EXT2_ROOT_INO \<equiv> 2 :: nat"
abbreviation "EXT2_GOOD_OLD_FIRST_INO \<equiv> 11 :: nat"
abbreviation "EXT2_GOOD_OLD_INODE_SIZE \<equiv> 128 :: nat"
abbreviation "EXT2_GOOD_OLD_REV \<equiv> 0 :: u32"
abbreviation "EXT2_DYNAMIC_REV \<equiv> 1 :: u32"
abbreviation "EXT2_LINK_MAX \<equiv> 32000 :: u32"
abbreviation "EXT2_NAME_LEN \<equiv> 255 :: nat"

abbreviation "RO_COMPAT_SPARSE_SUPER \<equiv> 1 :: u32"
abbreviation "RO_COMPAT_LARGE_FILE \<equiv> 2 :: u32"
abbreviation "RO_COMPAT_BTREE_DIR \<equiv> 4 :: u32"
abbreviation "INCOMPAT_FILETYPE \<equiv> 2 :: u32"
abbreviation "INCOMPAT_META_BG \<equiv> 0x10 :: u32"
abbreviation "COMPAT_EXT_ATTR \<equiv> 8 :: u32"

abbreviation "EXT2_NDIR_BLOCKS \<equiv> 12 :: nat"
abbreviation "EXT2_IND_BLOCK \<equiv> 12 :: nat"
abbreviation "EXT2_DIND_BLOCK \<equiv> 13 :: nat"
abbreviation "EXT2_TIND_BLOCK \<equiv> 14 :: nat"
abbreviation "EXT2_N_BLOCKS \<equiv> 15 :: nat"

abbreviation "EXT2_STATE_NEW \<equiv> 1 :: u16"
abbreviation "I_DIRTY \<equiv> 7 :: u32"
abbreviation "I_DIRTY_SYNC \<equiv> 1 :: u32"
abbreviation "I_NEW \<equiv> 8 :: u32"

section \<open>Structures\<close>

record ext2_group_desc =
  bg_block_bitmap :: nat
  bg_inode_bitmap :: nat
  bg_inode_table :: nat
  bg_free_blocks_count :: u16
  bg_free_inodes_count :: u16
  bg_used_dirs_count :: u16

text \<open>The fields of \<open>struct ext2_super_block\<close> that the kernel reads or writes.\<close>

record ext2_super_block =
  es_inodes_count :: u32
  es_blocks_count :: u32
  es_r_blocks_count :: u32
  es_free_blocks_count :: u32
  es_free_inodes_count :: u32
  es_first_data_block :: u32
  es_log_block_size :: u32
  es_log_frag_size :: u32
  es_blocks_per_group :: u32
  es_frags_per_group :: u32
  es_inodes_per_group :: u32
  es_mtime :: u32
  es_wtime :: u32
  es_mnt_count :: u16
  es_max_mnt_count :: u16
  es_magic :: u16
  es_state :: u16
  es_errors :: u16
  es_lastcheck :: u32
  es_checkinterval :: u32
  es_creator_os :: u32
  es_rev_level :: u32
  es_def_resuid :: u16
  es_def_resgid :: u16
  es_first_ino :: u32
  es_inode_size :: u16
  es_feature_compat :: u32
  es_feature_incompat :: u32
  es_feature_ro_compat :: u32
  es_default_mount_opts :: u32
  es_first_meta_bg :: u32

record ext2_reserve_window =
  rsv_start :: nat
  rsv_end :: nat

record ext2_reserve_window_node =
  rsv_goal_size :: nat
  rsv_alloc_hit :: nat
  rsv_window :: ext2_reserve_window

text \<open>
  The window node of \<open>ext2_block_alloc_info\<close> is linked into the tree of the superblock; it is
  held in the table \<open>s_rsv_nodes\<close> of \<open>ext2_sb_info\<close> under the number of its inode.
\<close>

record ext2_block_alloc_info =
  last_alloc_logical_block :: nat
  last_alloc_physical_block :: nat

text \<open>
  Geometry and block numbers are naturals. The tree of reservation windows holds the owners of the
  nodes; the owner 0, which is no inode number, is \<open>s_rsv_window_head\<close>.
\<close>

record ext2_sb_info =
  s_frag_size :: nat
  s_frags_per_block :: nat
  s_inodes_per_block :: nat
  s_frags_per_group :: nat
  s_blocks_per_group :: nat
  s_inodes_per_group :: nat
  s_itb_per_group :: nat
  s_gdb_count :: nat
  s_desc_per_block :: nat
  s_groups_count :: nat
  s_overhead_last :: nat
  s_blocks_last :: nat
  s_mount_opt :: u32
  s_sb_block :: nat
  s_resuid :: u32
  s_resgid :: u32
  s_mount_state :: u16
  s_addr_per_block_bits :: nat
  s_desc_per_block_bits :: nat
  s_inode_size :: nat
  s_first_ino :: nat
  s_next_generation :: u32
  s_dir_count :: nat
  s_debts :: "nat \<Rightarrow> u8"
  s_freeblocks_counter :: int
  s_freeinodes_counter :: int
  s_dirs_counter :: int
  s_rsv_window_root :: "nat rbt"
  s_rsv_nodes :: "nat \<Rightarrow> ext2_reserve_window_node"

record super_block =
  s_blocksize :: nat
  s_blocksize_bits :: nat
  s_flags :: u32
  s_dirt :: bool
  s_maxbytes :: nat

datatype inode_ops =
    empty_iops
  | ext2_file_inode_operations
  | ext2_dir_inode_operations
  | ext2_fast_symlink_inode_operations
  | ext2_symlink_inode_operations
  | ext2_special_inode_operations

datatype file_ops =
    empty_fops
  | ext2_file_operations
  | ext2_dir_operations
  | def_chr_fops
  | def_blk_fops
  | def_fifo_fops
  | bad_sock_fops

datatype aspace_ops = empty_aops | ext2_aops | ext2_nobh_aops

text \<open>The VFS inode; \<open>i_flags_vfs\<close> and \<open>i_state_vfs\<close> are its \<open>i_flags\<close> and \<open>i_state\<close>.\<close>

record inode =
  i_ino :: nat
  i_mode :: u16
  i_uid :: u32
  i_gid :: u32
  i_nlink :: u32
  i_size :: u64
  i_atime :: timespec
  i_mtime :: timespec
  i_ctime :: timespec
  i_blocks :: u64
  i_generation :: u32
  i_flags_vfs :: u32
  i_state_vfs :: u32
  i_rdev :: u32
  i_count :: int
  i_version :: u64
  i_op :: inode_ops
  i_fop :: file_ops
  i_aops :: aspace_ops

text \<open>\<open>ei_state\<close> is the \<open>i_state\<close> of \<open>ext2_inode_info\<close>; \<open>i_data\<close> is in little-endian order.\<close>

record ext2_inode_info =
  i_data :: "u32 list"
  i_flags :: u32
  i_faddr :: u32
  i_frag_no :: u8
  i_frag_size :: u8
  ei_state :: u16
  i_file_acl :: u32
  i_dir_acl :: u32
  i_dtime :: u32
  i_block_group :: nat
  i_block_alloc_info :: "ext2_block_alloc_info option"
  i_dir_start_lookup :: nat
  i_gps :: gps_on_disk
  i_gps_lock :: rwlock
  vfs_inode :: inode

text \<open>A page of a directory in the page cache: its bytes and its \<open>PageChecked\<close>, \<open>PageError\<close> bits.\<close>

record page =
  pg_data :: mem
  pg_checked :: bool
  pg_error :: bool

text \<open>
  The kernel state the file system runs in. \<open>ks_gdesc\<close> are the buffers \<open>s_group_desc\<close>, \<open>ks_dev\<close>
  the blocks of the device as the buffer cache shows them (None: the block cannot be read),
  \<open>ks_uptodate\<close> the blocks whose buffer is up to date already when a bitmap is looked up,
  \<open>ks_icache\<close> the inode cache, \<open>ks_pages\<close> the page cache of directories by inode number and page
  index (None: the page cannot be read), \<open>ks_slab\<close> the contents of the memory the inode slab hands
  out next, \<open>ks_oom\<close> whether allocation fails, \<open>ks_panic\<close> whether the kernel panicked.
\<close>

record kstate =
  ks_arch :: arch
  ks_now :: timespec
  ks_gps :: gps_state
  ks_sb :: super_block
  ks_sbi :: ext2_sb_info
  ks_es :: ext2_super_block
  ks_gdesc :: "nat \<Rightarrow> (nat \<Rightarrow> ext2_group_desc) option"
  ks_dev :: "nat \<Rightarrow> mem option"
  ks_uptodate :: "nat \<Rightarrow> bool"
  ks_icache :: "nat \<Rightarrow> ext2_inode_info option"
  ks_pages :: "nat \<Rightarrow> nat \<Rightarrow> page option"
  ks_slab :: ext2_inode_info
  ks_oom :: bool
  ks_panic :: bool

definition test_opt :: "kstate \<Rightarrow> u32 \<Rightarrow> bool" where
  "test_opt s opt = has_flag (s_mount_opt (ks_sbi s)) opt"

definition EXT2_HAS_COMPAT_FEATURE :: "kstate \<Rightarrow> u32 \<Rightarrow> bool" where
  "EXT2_HAS_COMPAT_FEATURE s msk = has_flag (es_feature_compat (ks_es s)) msk"

definition EXT2_HAS_RO_COMPAT_FEATURE :: "kstate \<Rightarrow> u32 \<Rightarrow> bool" where
  "EXT2_HAS_RO_COMPAT_FEATURE s msk = has_flag (es_feature_ro_compat (ks_es s)) msk"

definition EXT2_HAS_INCOMPAT_FEATURE :: "kstate \<Rightarrow> u32 \<Rightarrow> bool" where
  "EXT2_HAS_INCOMPAT_FEATURE s msk = has_flag (es_feature_incompat (ks_es s)) msk"

definition EXT2_SET_RO_COMPAT_FEATURE :: "u32 \<Rightarrow> kstate \<Rightarrow> kstate" where
  "EXT2_SET_RO_COMPAT_FEATURE msk s =
     s\<lparr>ks_es := (ks_es s)\<lparr>es_feature_ro_compat := es_feature_ro_compat (ks_es s) OR msk\<rparr>\<rparr>"

definition get_seconds :: "kstate \<Rightarrow> u32" where
  "get_seconds s = tv_sec (ks_now s)"

text \<open>\<open>mark_inode_dirty\<close>, \<open>IS_SYNC\<close> and \<open>IS_DIRSYNC\<close> of the VFS.\<close>

definition mark_inode_dirty :: "ext2_inode_info \<Rightarrow> ext2_inode_info" where
  "mark_inode_dirty ei =
     ei\<lparr>vfs_inode := (vfs_inode ei)\<lparr>i_state_vfs := i_state_vfs (vfs_inode ei) OR I_DIRTY\<rparr>\<rparr>"

definition IS_SYNC :: "kstate \<Rightarrow> inode \<Rightarrow> bool" where
  "IS_SYNC s ino \<longleftrightarrow> has_flag (s_flags (ks_sb s)) MS_SYNCHRONOUS \<or> has_flag (i_flags_vfs ino) S_SYNC"

definition IS_DIRSYNC :: "kstate \<Rightarrow> inode \<Rightarrow> bool" where
  "IS_DIRSYNC s ino \<longleftrightarrow>
     has_flag (s_flags (ks_sb s)) (MS_SYNCHRONOUS OR MS_DIRSYNC) \<or>
     has_flag (i_flags_vfs ino) (S_SYNC OR S_DIRSYNC)"

section \<open>Facts about flags\<close>

lemma ext2_mask_flags_idem [simp]:
  "ext2_mask_flags m (ext2_mask_flags m f) = ext2_mask_flags m f"
  by (simp add: ext2_mask_flags_def)

lemma ext2_mask_flags_subset: "ext2_mask_flags m f AND f = ext2_mask_flags m f"
  by (simp add: ext2_mask_flags_def and.assoc and.commute and.left_commute)

lemma S_IS_exclusive:
  "S_ISREG m \<Longrightarrow> \<not> S_ISDIR m" "S_ISREG m \<Longrightarrow> \<not> S_ISLNK m" "S_ISDIR m \<Longrightarrow> \<not> S_ISLNK m"
  "S_ISREG m \<Longrightarrow> \<not> S_ISCHR m" "S_ISREG m \<Longrightarrow> \<not> S_ISBLK m"
  "S_ISDIR m \<Longrightarrow> \<not> S_ISCHR m" "S_ISDIR m \<Longrightarrow> \<not> S_ISBLK m" "S_ISDIR m \<Longrightarrow> \<not> S_ISREG m"
  "S_ISLNK m \<Longrightarrow> \<not> S_ISCHR m" "S_ISLNK m \<Longrightarrow> \<not> S_ISBLK m"
  by (simp_all add: S_ISREG_def S_ISDIR_def S_ISLNK_def S_ISCHR_def S_ISBLK_def)

section \<open>A small file system\<close>

text \<open>
  A file system of one group, with 1024-byte blocks, 256-byte inodes and an all-zero device, on
  which the later theories evaluate their theorems.
\<close>

definition sample_inode :: inode where
  "sample_inode =
     \<lparr>i_ino = 0, i_mode = 0, i_uid = 0, i_gid = 0, i_nlink = 1, i_size = 0,
      i_atime = \<lparr>tv_sec = 0, tv_nsec = 0\<rparr>, i_mtime = \<lparr>tv_sec = 0, tv_nsec = 0\<rparr>,
      i_ctime = \<lparr>tv_sec = 0, tv_nsec = 0\<rparr>, i_blocks = 0, i_generation = 0, i_flags_vfs = 0,
      i_state_vfs = 0, i_rdev = 0, i_count = 1, i_version = 1, i_op = empty_iops,
      i_fop = empty_fops, i_aops = empty_aops\<rparr>"

definition sample_ei :: ext2_inode_info where
  "sample_ei =
     \<lparr>i_data = replicate 15 0, i_flags = 0, i_faddr = 0, i_frag_no = 0, i_frag_size = 0, ei_state = 0,
      i_file_acl = 0, i_dir_acl = 0, i_dtime = 0, i_block_group = 0, i_block_alloc_info = None,
      i_dir_start_lookup = 0, i_gps = \<lparr>d_latitude = 0, d_longitude = 0, d_accuracy = 0, d_age = 0\<rparr>,
      i_gps_lock = \<lparr>rd_count = 0, wr_held = False\<rparr>, vfs_inode = sample_inode\<rparr>"

definition sample_desc :: ext2_group_desc where
  "sample_desc =
     \<lparr>bg_block_bitmap = 3, bg_inode_bitmap = 4, bg_inode_table = 5, bg_free_blocks_count = 64,
      bg_free_inodes_count = 32, bg_used_dirs_count = 0\<rparr>"

definition sample_es :: ext2_super_block where
  "sample_es =
     \<lparr>es_inodes_count = 32, es_blocks_count = 65, es_r_blocks_count = 0, es_free_blocks_count = 64,
      es_free_inodes_count = 32, es_first_data_block = 1, es_log_block_size = 0,
      es_log_frag_size = 0, es_blocks_per_group = 64, es_frags_per_group = 64,
      es_inodes_per_group = 32, es_mtime = 0, es_wtime = 0, es_mnt_count = 0,
      es_max_mnt_count = 20, es_magic = 0xEF53, es_state = 1, es_errors = 1, es_lastcheck = 0,
      es_checkinterval = 0, es_creator_os = 0, es_rev_level = 1, es_def_resuid = 0,
      es_def_resgid = 0, es_first_ino = 11, es_inode_size = 256, es_feature_compat = 0,
      es_feature_incompat = 2, es_feature_ro_compat = 1, es_default_mount_opts = 0,
      es_first_meta_bg = 0\<rparr>"

definition sample_rsv :: ext2_reserve_window_node where
  "sample_rsv = \<lparr>rsv_goal_size = 8, rsv_alloc_hit = 0, rsv_window = \<lparr>rsv_start = 0, rsv_end = 0\<rparr>\<rparr>"

definition sample_sbi :: ext2_sb_info where
  "sample_sbi =
     \<lparr>s_frag_size = 1024, s_frags_per_block = 1, s_inodes_per_block = 4, s_frags_per_group = 64,
      s_blocks_per_group = 64, s_inodes_per_group = 32, s_itb_per_group = 8, s_gdb_count = 1,
      s_desc_per_block = 32, s_groups_count = 1, s_overhead_last = 0, s_blocks_last = 0,
      s_mount_opt = MOUNT_ERRORS_CONT, s_sb_block = 1, s_resuid = 0, s_resgid = 0,
      s_mount_state = 1, s_addr_per_block_bits = 8, s_desc_per_block_bits = 5, s_inode_size = 256,
      s_first_ino = 11, s_next_generation = 0, s_dir_count = 0, s_debts = (\<lambda>_. 0),
      s_freeblocks_counter = 64, s_freeinodes_counter = 32, s_dirs_counter = 0,
      s_rsv_window_root = RbE, s_rsv_nodes = (\<lambda>_. sample_rsv)\<rparr>"

definition sample_fs :: "arch \<Rightarrow> kstate" where
  "sample_fs A =
     \<lparr>ks_arch = A, ks_now = \<lparr>tv_sec = 1000, tv_nsec = 0\<rparr>, ks_gps = gps_boot,
      ks_sb = \<lparr>s_blocksize = 1024, s_blocksize_bits = 10, s_flags = 0, s_dirt = False, s_maxbytes = 0\<rparr>,
      ks_sbi = sample_sbi, ks_es = sample_es,
      ks_gdesc = (\<lambda>i. if i = 0 then Some (\<lambda>_. sample_desc) else None),
      ks_dev = (\<lambda>_. Some (\<lambda>_. 0)), ks_uptodate = (\<lambda>_. False), ks_icache = (\<lambda>_. None), ks_pages = (\<lambda>_ _. None),
      ks_slab = sample_ei, ks_oom = False, ks_panic = False\<rparr>"

lemmas sample_defs =
  sample_inode_def sample_ei_def sample_desc_def sample_es_def sample_rsv_def sample_sbi_def
  sample_fs_def

end
