(* ===== verification/Ext2_Fs.thy ===== *)
theory Ext2_Fs
  imports Ext2_Types "HOL-Library.While_Combinator"
begin

text \<open>
  Group descriptors, the counters kept in them, the superblock's write-back and the error handling
  that every other part of the file system calls: \<open>ext2_get_group_desc\<close> and the end of
  \<open>fs/ext2/balloc.c\<close>, the end of \<open>fs/ext2/ialloc.c\<close>, and the superblock helpers of
  \<open>fs/ext2/super.c\<close>.
\<close>

section \<open>Group descriptors\<close>

text \<open>
  Where the descriptor of a group is: the buffer \<open>block_group >> bits\<close> of \<open>s_group_desc\<close> and the
  offset \<open>block_group & (desc_per_block - 1)\<close> in it.
\<close>

definition group_desc_index :: "kstate \<Rightarrow> nat \<Rightarrow> nat" where
  "group_desc_index s g = drop_bit (s_desc_per_block_bits (ks_sbi s)) g"

definition group_desc_offset :: "kstate \<Rightarrow> nat \<Rightarrow> nat" where
  "group_desc_offset s g = nat (int g AND (int (s_desc_per_block (ks_sbi s)) - 1))"

definition lookup_group_desc :: "kstate \<Rightarrow> nat \<Rightarrow> ext2_group_desc option" where
  "lookup_group_desc s g =
     (if s_groups_count (ks_sbi s) \<le> g then None
      else map_option (\<lambda>b. b (group_desc_offset s g)) (ks_gdesc s (group_desc_index s g)))"

text \<open>An assignment through the descriptor pointer that \<open>ext2_get_group_desc\<close> returned.\<close>

definition upd_group_desc ::
  "nat \<Rightarrow> (ext2_group_desc \<Rightarrow> ext2_group_desc) \<Rightarrow> kstate \<Rightarrow> kstate" where
  "upd_group_desc g f s =
     s\<lparr>ks_gdesc := (ks_gdesc s)(group_desc_index s g :=
        map_option (\<lambda>b. b(group_desc_offset s g := f (b (group_desc_offset s g))))
          (ks_gdesc s (group_desc_index s g)))\<rparr>"

text \<open>
  The sums over all groups. They run inside \<open>ext2_error\<close> too, so a descriptor block that is not
  loaded is skipped here without reporting it again.
\<close>

definition sum_groups :: "(ext2_group_desc \<Rightarrow> u16) \<Rightarrow> kstate \<Rightarrow> nat" where
  "sum_groups f s =
     sum_list (map (\<lambda>i. case lookup_group_desc s i of None \<Rightarrow> 0 | Some d \<Rightarrow> unat (f d))
       [0..<s_groups_count (ks_sbi s)])"

definition ext2_count_free_blocks :: "kstate \<Rightarrow> nat" where
  "ext2_count_free_blocks s = sum_groups bg_free_blocks_count s"

definition ext2_count_free_inodes :: "kstate \<Rightarrow> nat" where
  "ext2_count_free_inodes s = sum_groups bg_free_inodes_count s"

definition ext2_count_dirs :: "kstate \<Rightarrow> nat" where
  "ext2_count_dirs s = sum_groups bg_used_dirs_count s"

section \<open>The superblock\<close>

definition ext2_sync_super :: "kstate \<Rightarrow> kstate" where
  "ext2_sync_super s =
     s\<lparr>ks_es := (ks_es s)\<lparr>es_free_blocks_count := of_nat (ext2_count_free_blocks s),
                          es_free_inodes_count := of_nat (ext2_count_free_inodes s),
                          es_wtime := get_seconds s\<rparr>,
       ks_sb := (ks_sb s)\<lparr>s_dirt := False\<rparr>\<rparr>"

definition ext2_error :: "kstate \<Rightarrow> kstate" where
  "ext2_error s =
     (let s1 = (if has_flag (s_flags (ks_sb s)) MS_RDONLY then s
                else ext2_sync_super
                  (s\<lparr>ks_sbi := (ks_sbi s)\<lparr>s_mount_state := s_mount_state (ks_sbi s) OR EXT2_ERROR_FS\<rparr>,
                     ks_es := (ks_es s)\<lparr>es_state := es_state (ks_es s) OR EXT2_ERROR_FS\<rparr>\<rparr>)) in
      if test_opt s1 MOUNT_ERRORS_PANIC then s1\<lparr>ks_panic := True\<rparr>
      else if test_opt s1 MOUNT_ERRORS_RO
      then s1\<lparr>ks_sb := (ks_sb s1)\<lparr>s_flags := s_flags (ks_sb s1) OR MS_RDONLY\<rparr>\<rparr>
      else s1)"

definition ext2_get_group_desc :: "nat \<Rightarrow> kstate \<Rightarrow> ext2_group_desc option \<times> kstate" where
  "ext2_get_group_desc block_group s =
     (if block_group \<ge> s_groups_count (ks_sbi s) then (None, ext2_error s)
      else case ks_gdesc s (group_desc_index s block_group) of
        None \<Rightarrow> (None, ext2_error s)
      | Some b \<Rightarrow> (Some (b (group_desc_offset s block_group)), s))"

definition ext2_update_dynamic_rev :: "kstate \<Rightarrow> kstate" where
  "ext2_update_dynamic_rev s =
     (if es_rev_level (ks_es s) > EXT2_GOOD_OLD_REV then s
      else s\<lparr>ks_es := (ks_es s)\<lparr>es_first_ino := of_nat EXT2_GOOD_OLD_FIRST_INO,
                                es_inode_size := of_nat EXT2_GOOD_OLD_INODE_SIZE,
                                es_rev_level := EXT2_DYNAMIC_REV\<rparr>\<rparr>)"

definition ext2_sync_fs :: "kstate \<Rightarrow> kstate" where
  "ext2_sync_fs s =
     ext2_sync_super
       (if has_flag (es_state (ks_es s)) EXT2_VALID_FS
        then s\<lparr>ks_es := (ks_es s)\<lparr>es_state := es_state (ks_es s) AND NOT EXT2_VALID_FS\<rparr>\<rparr>
        else s)"

definition ext2_write_super :: "kstate \<Rightarrow> kstate" where
  "ext2_write_super s =
     (if has_flag (s_flags (ks_sb s)) MS_RDONLY then s\<lparr>ks_sb := (ks_sb s)\<lparr>s_dirt := False\<rparr>\<rparr>
      else ext2_sync_fs s)"

section \<open>Groups with a superblock copy\<close>

definition test_root :: "nat \<Rightarrow> nat \<Rightarrow> bool option" where
  "test_root a b = map_option (\<lambda>num. num = a) (while_option (\<lambda>num. a > num) (\<lambda>num. num * b) b)"

definition ext2_group_sparse :: "nat \<Rightarrow> bool" where
  "ext2_group_sparse grp \<longleftrightarrow>
     grp \<le> 1 \<or> test_root grp 3 = Some True \<or> test_root grp 5 = Some True \<or>
     test_root grp 7 = Some True"

definition ext2_bg_has_super :: "kstate \<Rightarrow> nat \<Rightarrow> nat" where
  "ext2_bg_has_super s grp =
     (if EXT2_HAS_RO_COMPAT_FEATURE s RO_COMPAT_SPARSE_SUPER \<and> \<not> ext2_group_sparse grp then 0
      else 1)"

definition ext2_bg_num_gdb :: "kstate \<Rightarrow> nat \<Rightarrow> nat" where
  "ext2_bg_num_gdb s grp =
     (if ext2_bg_has_super s grp \<noteq> 0 then s_gdb_count (ks_sbi s) else 0)"

section \<open>Facts about descriptors\<close>

lemma ext2_get_group_desc_lookup [simp]:
  "fst (ext2_get_group_desc g s) = lookup_group_desc s g"
  by (auto simp: ext2_get_group_desc_def lookup_group_desc_def split: option.splits)

lemma ext2_get_group_desc_Some:
  "lookup_group_desc s g = Some d \<Longrightarrow> ext2_get_group_desc g s = (Some d, s)"
  by (auto simp: ext2_get_group_desc_def lookup_group_desc_def split: option.splits if_splits)

lemma ext2_get_group_desc_None:
  "lookup_group_desc s g = None \<Longrightarrow> ext2_get_group_desc g s = (None, ext2_error s)"
  by (auto simp: ext2_get_group_desc_def lookup_group_desc_def split: option.splits if_splits)

text \<open>
  With a power of two of descriptors per block, index and offset identify the group, so writing one
  descriptor leaves the others alone.
\<close>

definition desc_geometry :: "kstate \<Rightarrow> bool" where
  "desc_geometry s \<longleftrightarrow> s_desc_per_block (ks_sbi s) = 2 ^ s_desc_per_block_bits (ks_sbi s)"

lemma group_desc_place:
  assumes "desc_geometry s"
  shows "group_desc_index s g = g div 2 ^ s_desc_per_block_bits (ks_sbi s)"
    and "group_desc_offset s g = g mod 2 ^ s_desc_per_block_bits (ks_sbi s)"
proof -
  let ?k = "s_desc_per_block_bits (ks_sbi s)"
  show "group_desc_index s g = g div 2 ^ ?k"
    by (simp add: group_desc_index_def drop_bit_eq_div)
  have "int g AND (2 ^ ?k - 1) = take_bit ?k (int g)"
    by (simp add: mask_eq_exp_minus_1 [symmetric] take_bit_eq_mask)
  moreover have "\<dots> = int (g mod 2 ^ ?k)"
    by (simp add: take_bit_eq_mod zmod_int)
  ultimately show "group_desc_offset s g = g mod 2 ^ ?k"
    using assms by (simp add: group_desc_offset_def desc_geometry_def)
qed

lemma group_desc_place_inj:
  assumes "desc_geometry s" "group_desc_index s g = group_desc_index s h"
    "group_desc_offset s g = group_desc_offset s h"
  shows "g = h"
  using assms group_desc_place [OF assms(1), of g] group_desc_place [OF assms(1), of h]
  by (metis div_mod_decomp)

lemma upd_group_desc_place [simp]:
  "group_desc_index (upd_group_desc h f s) = group_desc_index s"
  "group_desc_offset (upd_group_desc h f s) = group_desc_offset s"
  by (simp_all add: fun_eq_iff group_desc_index_def group_desc_offset_def upd_group_desc_def)

lemma upd_group_desc_keeps [simp]:
  "ks_sbi (upd_group_desc h f s) = ks_sbi s" "ks_es (upd_group_desc h f s) = ks_es s"
  "ks_sb (upd_group_desc h f s) = ks_sb s" "ks_dev (upd_group_desc h f s) = ks_dev s"
  "ks_icache (upd_group_desc h f s) = ks_icache s" "ks_arch (upd_group_desc h f s) = ks_arch s"
  "ks_pages (upd_group_desc h f s) = ks_pages s" "ks_gps (upd_group_desc h f s) = ks_gps s"
  "ks_now (upd_group_desc h f s) = ks_now s" "ks_oom (upd_group_desc h f s) = ks_oom s"
  "ks_slab (upd_group_desc h f s) = ks_slab s" "ks_panic (upd_group_desc h f s) = ks_panic s"
  "ks_uptodate (upd_group_desc h f s) = ks_uptodate s"
  by (simp_all add: upd_group_desc_def)

lemma ks_gdesc_upd_group_desc:
  "ks_gdesc (upd_group_desc h f s) = (ks_gdesc s)(group_desc_index s h :=
     map_option (\<lambda>b. b(group_desc_offset s h := f (b (group_desc_offset s h))))
       (ks_gdesc s (group_desc_index s h)))"
  by (simp add: upd_group_desc_def)

lemma lookup_upd_group_desc:
  assumes "desc_geometry s"
  shows "lookup_group_desc (upd_group_desc h f s) g =
     (if g = h then map_option f (lookup_group_desc s g) else lookup_group_desc s g)"
proof (cases "g = h")
  case True
  then show ?thesis
    by (simp add: lookup_group_desc_def ks_gdesc_upd_group_desc option.map_comp comp_def)
next
  case False
  then have "group_desc_index s g \<noteq> group_desc_index s h \<or> group_desc_offset s g \<noteq> group_desc_offset s h"
    using group_desc_place_inj [OF assms] by blast
  then have "map_option (\<lambda>b. b (group_desc_offset s g)) (ks_gdesc (upd_group_desc h f s) (group_desc_index s g))
      = map_option (\<lambda>b. b (group_desc_offset s g)) (ks_gdesc s (group_desc_index s g))"
    by (auto simp: ks_gdesc_upd_group_desc option.map_comp comp_def)
  then show ?thesis
    using False by (simp add: lookup_group_desc_def)
qed

lemma desc_geometry_upd [simp]: "desc_geometry (upd_group_desc h f s) = desc_geometry s"
  by (simp add: desc_geometry_def)

section \<open>What an error leaves alone\<close>

lemma ext2_sync_super_keeps [simp]:
  "ks_arch (ext2_sync_super s) = ks_arch s" "ks_now (ext2_sync_super s) = ks_now s"
  "ks_gps (ext2_sync_super s) = ks_gps s" "ks_sbi (ext2_sync_super s) = ks_sbi s"
  "ks_gdesc (ext2_sync_super s) = ks_gdesc s" "ks_dev (ext2_sync_super s) = ks_dev s"
  "ks_icache (ext2_sync_super s) = ks_icache s" "ks_pages (ext2_sync_super s) = ks_pages s"
  "ks_slab (ext2_sync_super s) = ks_slab s" "ks_oom (ext2_sync_super s) = ks_oom s"
  "ks_panic (ext2_sync_super s) = ks_panic s" "ks_uptodate (ext2_sync_super s) = ks_uptodate s"
  "s_flags (ks_sb (ext2_sync_super s)) = s_flags (ks_sb s)"
  "s_blocksize (ks_sb (ext2_sync_super s)) = s_blocksize (ks_sb s)"
  "s_blocksize_bits (ks_sb (ext2_sync_super s)) = s_blocksize_bits (ks_sb s)"
  by (simp_all add: ext2_sync_super_def)

lemma ext2_error_keeps [simp]:
  "ks_arch (ext2_error s) = ks_arch s" "ks_now (ext2_error s) = ks_now s"
  "ks_gps (ext2_error s) = ks_gps s" "ks_gdesc (ext2_error s) = ks_gdesc s"
  "ks_dev (ext2_error s) = ks_dev s" "ks_icache (ext2_error s) = ks_icache s"
  "ks_pages (ext2_error s) = ks_pages s" "ks_slab (ext2_error s) = ks_slab s"
  "ks_oom (ext2_error s) = ks_oom s" "ks_uptodate (ext2_error s) = ks_uptodate s"
  "s_blocksize (ks_sb (ext2_error s)) = s_blocksize (ks_sb s)"
  "s_blocksize_bits (ks_sb (ext2_error s)) = s_blocksize_bits (ks_sb s)"
  "s_mount_opt (ks_sbi (ext2_error s)) = s_mount_opt (ks_sbi s)"
  "s_groups_count (ks_sbi (ext2_error s)) = s_groups_count (ks_sbi s)"
  by (simp_all add: ext2_error_def Let_def)

text \<open>The superblock written back carries the sums of the group descriptors.\<close>

lemma ext2_sync_super_counts:
  "es_free_blocks_count (ks_es (ext2_sync_super s)) = of_nat (ext2_count_free_blocks s)"
  "es_free_inodes_count (ks_es (ext2_sync_super s)) = of_nat (ext2_count_free_inodes s)"
  by (simp_all add: ext2_sync_super_def)

section \<open>Properties\<close>

lemma test_root_terminates:
  fixes a b :: nat
  assumes "1 < b"
  shows "\<exists>num. while_option (\<lambda>num. a > num) (\<lambda>num. num * b) (b ^ Suc k) = Some num"
proof -
  have "\<And>n. 0 < n \<and> n < a \<Longrightarrow> n < n * b" using assms by simp
  then show ?thesis
    using assms
    by (intro measure_while_option_Some [where P = "\<lambda>n. 0 < n" and f = "\<lambda>n. a - n"])
      (auto intro: diff_less_mono2)
qed

lemma test_root_iff:
  assumes "1 < b"
  shows "test_root a b = Some (\<exists>k. a = b ^ Suc k)"
proof -
  obtain num where num: "while_option (\<lambda>num. a > num) (\<lambda>num. num * b) b = Some num"
    using test_root_terminates [OF assms, of a 0] by auto
  have inv: "(\<exists>k. num = b ^ Suc k) \<and> (\<forall>k. a = b ^ Suc k \<longrightarrow> num \<le> a)"
  proof (rule while_option_rule [where P = "\<lambda>n. (\<exists>k. n = b ^ Suc k) \<and> (\<forall>k. a = b ^ Suc k \<longrightarrow> n \<le> a)", OF _ num])
    fix n assume IH: "(\<exists>k. n = b ^ Suc k) \<and> (\<forall>k. a = b ^ Suc k \<longrightarrow> n \<le> a)" and lt: "n < a"
    then obtain k where k: "n = b ^ Suc k" by blast
    have "n * b \<le> a" if "a = b ^ Suc j" for j
    proof -
      have "Suc k < Suc j"
        using lt assms unfolding k that by (rule power_less_imp_less_exp [rotated])
      then have "b ^ Suc (Suc k) \<le> b ^ Suc j"
        using assms by (intro power_increasing) simp_all
      then show ?thesis by (simp add: k that mult.commute mult.left_commute)
    qed
    moreover have "n * b = b ^ Suc (Suc k)" by (simp add: k)
    ultimately show "(\<exists>k. n * b = b ^ Suc k) \<and> (\<forall>k. a = b ^ Suc k \<longrightarrow> n * b \<le> a)" by blast
  next
    show "(\<exists>k. b = b ^ Suc k) \<and> (\<forall>k. a = b ^ Suc k \<longrightarrow> b \<le> a)"
      using assms by (auto intro: exI [of _ 0])
  qed
  moreover have "\<not> num < a" using while_option_stop [OF num] .
  ultimately have "num = a \<longleftrightarrow> (\<exists>k. a = b ^ Suc k)" by (metis le_antisym not_less)
  then show ?thesis by (simp add: test_root_def num)
qed



end
