(* ===== verification/Ext2_Inode.thy ===== *)
theory Ext2_Inode
  imports Ext2_Fs
begin

text \<open>
  Reading an inode from its place in the inode table and writing it back: \<open>ext2_get_inode\<close>,
  \<open>ext2_iget\<close>, \<open>__ext2_write_inode\<close> and the flag conversions of \<open>fs/ext2/inode.c\<close>. A raw inode is
  the bytes of \<open>struct ext2_inode\<close> at an offset of a block of the device, with the four GPS fields
  at bytes 128 to 151. Pointers to in-core inodes are keys of the inode cache.
\<close>

section \<open>Helpers of the VFS\<close>

definition upd_vfs :: "(inode \<Rightarrow> inode) \<Rightarrow> ext2_inode_info \<Rightarrow> ext2_inode_info" where
  "upd_vfs f ei = ei\<lparr>vfs_inode := f (vfs_inode ei)\<rparr>"

definition put_inode :: "nat \<Rightarrow> ext2_inode_info \<Rightarrow> kstate \<Rightarrow> kstate" where
  "put_inode ino ei s = s\<lparr>ks_icache := (ks_icache s)(ino \<mapsto> ei)\<rparr>"

definition MAJOR :: "u32 \<Rightarrow> u32" where "MAJOR dev = drop_bit 20 dev"
definition MINOR :: "u32 \<Rightarrow> u32" where "MINOR dev = dev AND 0xFFFFF"
definition MKDEV :: "u32 \<Rightarrow> u32 \<Rightarrow> u32" where "MKDEV ma mi = push_bit 20 ma OR mi"

definition old_valid_dev :: "u32 \<Rightarrow> bool" where
  "old_valid_dev dev \<longleftrightarrow> MAJOR dev < 256 \<and> MINOR dev < 256"

definition old_encode_dev :: "u32 \<Rightarrow> u16" where
  "old_encode_dev dev = ucast (push_bit 8 (MAJOR dev) OR MINOR dev)"

definition old_decode_dev :: "u16 \<Rightarrow> u32" where
  "old_decode_dev val = MKDEV (ucast (drop_bit 8 val AND 255)) (ucast (val AND 255))"

definition new_encode_dev :: "u32 \<Rightarrow> u32" where
  "new_encode_dev dev =
     (let major = MAJOR dev; minor = MINOR dev in
      (minor AND 0xFF) OR push_bit 8 major OR push_bit 12 (minor AND NOT 0xFF))"

definition new_decode_dev :: "u32 \<Rightarrow> u32" where
  "new_decode_dev dev =
     (let major = drop_bit 8 (dev AND 0xFFF00);
          minor = (dev AND 0xFF) OR (drop_bit 12 dev AND 0xFFF00) in
      MKDEV major minor)"

definition init_special_inode :: "u16 \<Rightarrow> u32 \<Rightarrow> inode \<Rightarrow> inode" where
  "init_special_inode mode rdev ino =
     (let i1 = ino\<lparr>i_mode := mode\<rparr> in
      if S_ISCHR mode then i1\<lparr>i_fop := def_chr_fops, i_rdev := rdev\<rparr>
      else if S_ISBLK mode then i1\<lparr>i_fop := def_blk_fops, i_rdev := rdev\<rparr>
      else if S_ISFIFO mode then i1\<lparr>i_fop := def_fifo_fops\<rparr>
      else if S_ISSOCK mode then i1\<lparr>i_fop := bad_sock_fops\<rparr>
      else i1)"

text \<open>
  \<open>nd_terminate_link\<close> stores a zero byte at index \<open>min len maxlen\<close> of \<open>i_data\<close> seen as an array of
  characters: in word \<open>k div 4\<close>, the byte that the CPU keeps at address \<open>k mod 4\<close> of a word.
\<close>

definition word_set_byte :: "arch \<Rightarrow> nat \<Rightarrow> u8 \<Rightarrow> u32 \<Rightarrow> u32" where
  "word_set_byte A k b w = of_le_bytes (mem_order A ((mem_order A (le_bytes w))[k := b]))"

definition nd_terminate_link :: "arch \<Rightarrow> u32 list \<Rightarrow> nat \<Rightarrow> nat \<Rightarrow> u32 list" where
  "nd_terminate_link A name len maxlen =
     (let k = min len maxlen in name[k div 4 := word_set_byte A (k mod 4) 0 (name ! (k div 4))])"

text \<open>\<open>alloc_inode\<close>: memory of the slab, \<open>ext2_alloc_inode\<close> and \<open>inode_init_always\<close>.\<close>

definition ext2_alloc_inode :: "kstate \<Rightarrow> ext2_inode_info option" where
  "ext2_alloc_inode s =
     (if ks_oom s then None
      else Some (upd_vfs (\<lambda>v. v\<lparr>i_version := 1\<rparr>) ((ks_slab s)\<lparr>i_block_alloc_info := None\<rparr>)))"

definition inode_init_always :: "ext2_inode_info \<Rightarrow> ext2_inode_info" where
  "inode_init_always =
     upd_vfs (\<lambda>v. v\<lparr>i_flags_vfs := 0, i_count := 1, i_op := empty_iops, i_fop := empty_fops,
       i_nlink := 1, i_uid := 0, i_gid := 0, i_size := 0, i_blocks := 0, i_generation := 0,
       i_rdev := 0, i_aops := empty_aops\<rparr>)"

text \<open>
  \<open>iget_locked\<close>: the cached inode with one more reference, or a fresh one marked \<open>I_NEW\<close>, or None
  when it cannot be allocated.
\<close>

definition iget_locked :: "nat \<Rightarrow> kstate \<Rightarrow> ext2_inode_info option \<times> kstate" where
  "iget_locked ino s =
     (case ks_icache s ino of
        Some ei \<Rightarrow>
          (let ei' = upd_vfs (\<lambda>v. v\<lparr>i_count := i_count v + 1\<rparr>) ei in (Some ei', put_inode ino ei' s))
      | None \<Rightarrow>
          (case ext2_alloc_inode s of
             None \<Rightarrow> (None, s)
           | Some e \<Rightarrow>
               (let ei = upd_vfs (\<lambda>v. v\<lparr>i_ino := ino, i_state_vfs := I_NEW\<rparr>) (inode_init_always e) in
                (Some ei, put_inode ino ei s))))"

definition unlock_new_inode :: "ext2_inode_info \<Rightarrow> ext2_inode_info" where
  "unlock_new_inode = upd_vfs (\<lambda>v. v\<lparr>i_state_vfs := i_state_vfs v AND NOT I_NEW\<rparr>)"

text \<open>\<open>iget_failed\<close>: the inode is made bad, unhashed and its only reference dropped.\<close>

definition iget_failed :: "nat \<Rightarrow> kstate \<Rightarrow> kstate" where
  "iget_failed ino s = s\<lparr>ks_icache := (ks_icache s)(ino := None)\<rparr>"

section \<open>Finding the raw inode\<close>

text \<open>The result is an error or the block and the byte offset in it of the raw inode.\<close>

definition ext2_get_inode :: "nat \<Rightarrow> kstate \<Rightarrow> (int + nat \<times> nat) \<times> kstate" where
  "ext2_get_inode ino s =
     (let sbi = ks_sbi s in
      if (ino \<noteq> EXT2_ROOT_INO \<and> ino < s_first_ino sbi) \<or> ino > unat (es_inodes_count (ks_es s))
      then (Inl (- EINVAL), ext2_error s)
      else case ext2_get_group_desc ((ino - 1) div s_inodes_per_group sbi) s of
        (None, s1) \<Rightarrow> (Inl (- EIO), s1)
      | (Some gdp, s1) \<Rightarrow>
          (let offset = ((ino - 1) mod s_inodes_per_group sbi) * s_inode_size sbi;
               block = bg_inode_table gdp + drop_bit (s_blocksize_bits (ks_sb s)) offset in
           case ks_dev s1 block of
             None \<Rightarrow> (Inl (- EIO), ext2_error s1)
           | Some bh \<Rightarrow>
               (Inr (block, nat (int offset AND (int (s_blocksize (ks_sb s)) - 1))), s1)))"

section \<open>Flags\<close>

definition flag_if :: "bool \<Rightarrow> u32 \<Rightarrow> u32" where
  "flag_if b f = (if b then f else 0)"

definition ext2_set_inode_flags :: "ext2_inode_info \<Rightarrow> ext2_inode_info" where
  "ext2_set_inode_flags ei =
     (let flags = i_flags ei in
      upd_vfs (\<lambda>v. v\<lparr>i_flags_vfs :=
        (i_flags_vfs v AND NOT (S_SYNC OR S_APPEND OR S_IMMUTABLE OR S_NOATIME OR S_DIRSYNC))
        OR flag_if (has_flag flags EXT2_SYNC_FL) S_SYNC
        OR flag_if (has_flag flags EXT2_APPEND_FL) S_APPEND
        OR flag_if (has_flag flags EXT2_IMMUTABLE_FL) S_IMMUTABLE
        OR flag_if (has_flag flags EXT2_NOATIME_FL) S_NOATIME
        OR flag_if (has_flag flags EXT2_DIRSYNC_FL) S_DIRSYNC\<rparr>) ei)"

definition ext2_get_inode_flags :: "ext2_inode_info \<Rightarrow> ext2_inode_info" where
  "ext2_get_inode_flags ei =
     (let flags = i_flags_vfs (vfs_inode ei) in
      ei\<lparr>i_flags :=
        (i_flags ei AND NOT (EXT2_SYNC_FL OR EXT2_APPEND_FL OR EXT2_IMMUTABLE_FL OR
           EXT2_NOATIME_FL OR EXT2_DIRSYNC_FL))
        OR flag_if (has_flag flags S_SYNC) EXT2_SYNC_FL
        OR flag_if (has_flag flags S_APPEND) EXT2_APPEND_FL
        OR flag_if (has_flag flags S_IMMUTABLE) EXT2_IMMUTABLE_FL
        OR flag_if (has_flag flags S_NOATIME) EXT2_NOATIME_FL
        OR flag_if (has_flag flags S_DIRSYNC) EXT2_DIRSYNC_FL\<rparr>)"

definition ext2_inode_is_fast_symlink :: "kstate \<Rightarrow> ext2_inode_info \<Rightarrow> bool" where
  "ext2_inode_is_fast_symlink s ei \<longleftrightarrow>
     (let ea_blocks = (if i_file_acl ei \<noteq> 0 then of_nat (drop_bit 9 (s_blocksize (ks_sb s))) else 0) in
      S_ISLNK (i_mode (vfs_inode ei)) \<and> i_blocks (vfs_inode ei) - ea_blocks = 0)"

section \<open>Reading an inode\<close>

text \<open>Up to the test for a deleted inode: identity, size, times and the GPS fields.\<close>

definition iget_read_head :: "arch \<Rightarrow> bool \<Rightarrow> mem \<Rightarrow> nat \<Rightarrow> ext2_inode_info \<Rightarrow> ext2_inode_info" where
  "iget_read_head A no_uid32 m r ei =
     (let uid = ucast (le_load A m (r + 2) :: u16) :: u32;
          gid = ucast (le_load A m (r + 24) :: u16) :: u32;
          uid' = (if no_uid32 then uid else uid OR push_bit 16 (ucast (le_load A m (r + 120) :: u16)));
          gid' = (if no_uid32 then gid else gid OR push_bit 16 (ucast (le_load A m (r + 122) :: u16))) in
      upd_vfs (\<lambda>v. v\<lparr>
          i_mode := le_load A m r, i_uid := uid', i_gid := gid',
          i_nlink := ucast (le_load A m (r + 26) :: u16),
          i_size := ucast (le_load A m (r + 4) :: u32),
          i_atime := \<lparr>tv_sec = le_load A m (r + 8), tv_nsec = 0\<rparr>,
          i_ctime := \<lparr>tv_sec = le_load A m (r + 12), tv_nsec = 0\<rparr>,
          i_mtime := \<lparr>tv_sec = le_load A m (r + 16), tv_nsec = 0\<rparr>\<rparr>)
        (ei\<lparr>i_dtime := le_load A m (r + 20),
            i_gps := \<lparr>d_latitude = le_load A m (r + 128), d_longitude = le_load A m (r + 136),
                     d_accuracy = le_load A m (r + 144), d_age = le_load A m (r + 148)\<rparr>\<rparr>))"

definition iget_read_rest ::
  "arch \<Rightarrow> mem \<Rightarrow> nat \<Rightarrow> nat \<Rightarrow> ext2_inode_info \<Rightarrow> ext2_inode_info" where
  "iget_read_rest A m r grp ei =
     (let reg = S_ISREG (i_mode (vfs_inode ei)) in
      upd_vfs (\<lambda>v. v\<lparr>
          i_blocks := ucast (le_load A m (r + 28) :: u32),
          i_size := (if reg then i_size v OR push_bit 32 (ucast (le_load A m (r + 108) :: u32)) else i_size v),
          i_generation := le_load A m (r + 100)\<rparr>)
        (ei\<lparr>i_flags := le_load A m (r + 32), i_faddr := le_load A m (r + 112),
            i_frag_no := m (r + 116), i_frag_size := m (r + 117),
            i_file_acl := le_load A m (r + 104),
            i_dir_acl := (if reg then 0 else le_load A m (r + 108)),
            i_dtime := 0, ei_state := 0, i_block_group := grp, i_dir_start_lookup := 0,
            i_data := load_words A m (r + 40) 15\<rparr>))"

definition ext2_data_aops :: "kstate \<Rightarrow> aspace_ops" where
  "ext2_data_aops s = (if test_opt s MOUNT_NOBH then ext2_nobh_aops else ext2_aops)"

text \<open>
  The operations of the inode by its type. The file system is built without execute-in-place, so
  \<open>ext2_use_xip\<close> is 0.
\<close>

definition iget_set_ops :: "kstate \<Rightarrow> mem \<Rightarrow> nat \<Rightarrow> ext2_inode_info \<Rightarrow> ext2_inode_info" where
  "iget_set_ops s m r ei =
     (let A = ks_arch s; mode = i_mode (vfs_inode ei) in
      if S_ISREG mode then
        upd_vfs (\<lambda>v. v\<lparr>i_op := ext2_file_inode_operations, i_aops := ext2_data_aops s,
          i_fop := ext2_file_operations\<rparr>) ei
      else if S_ISDIR mode then
        upd_vfs (\<lambda>v. v\<lparr>i_op := ext2_dir_inode_operations, i_fop := ext2_dir_operations,
          i_aops := ext2_data_aops s\<rparr>) ei
      else if S_ISLNK mode then
        (if ext2_inode_is_fast_symlink s ei then
           upd_vfs (\<lambda>v. v\<lparr>i_op := ext2_fast_symlink_inode_operations\<rparr>)
             (ei\<lparr>i_data := nd_terminate_link A (i_data ei) (unat (ucast (i_size (vfs_inode ei)) :: u32)) 59\<rparr>)
         else
           upd_vfs (\<lambda>v. v\<lparr>i_op := ext2_symlink_inode_operations, i_aops := ext2_data_aops s\<rparr>) ei)
      else
        upd_vfs
          (if load_word A m (r + 40) \<noteq> (0 :: u32)
           then init_special_inode mode (old_decode_dev (ucast (le_load A m (r + 40) :: u32)))
           else init_special_inode mode (new_decode_dev (le_load A m (r + 44))))
          (upd_vfs (\<lambda>v. v\<lparr>i_op := ext2_special_inode_operations\<rparr>) ei))"

text \<open>The result is an error or the inode, as its key in the cache.\<close>

definition ext2_iget :: "nat \<Rightarrow> kstate \<Rightarrow> (int + nat) \<times> kstate" where
  "ext2_iget ino s =
     (case iget_locked ino s of
        (None, s1) \<Rightarrow> (Inl (- ENOMEM), s1)
      | (Some ei, s1) \<Rightarrow>
          if \<not> has_flag (i_state_vfs (vfs_inode ei)) I_NEW then (Inr ino, s1)
          else
            let ei0 = ei\<lparr>i_block_alloc_info := None\<rparr> in
            case ext2_get_inode ino s1 of
              (Inl err, s2) \<Rightarrow> (Inl err, iget_failed ino s2)
            | (Inr (block, r), s2) \<Rightarrow>
                (let m = the (ks_dev s2 block);
                     ei1 = iget_read_head (ks_arch s2) (test_opt s2 MOUNT_NO_UID32) m r ei0 in
                 if i_nlink (vfs_inode ei1) = 0 \<and> (i_mode (vfs_inode ei1) = 0 \<or> i_dtime ei1 \<noteq> 0)
                 then (Inl (- ESTALE), iget_failed ino s2)
                 else
                   let ei2 = iget_read_rest (ks_arch s2) m r
                               ((ino - 1) div s_inodes_per_group (ks_sbi s2)) ei1;
                       ei3 = iget_set_ops s2 m r ei2 in
                   (Inr ino, put_inode ino (unlock_new_inode (ext2_set_inode_flags ei3)) s2)))"

section \<open>Writing an inode\<close>

definition fs_high2lowid :: "u32 \<Rightarrow> u16" where
  "fs_high2lowid uid = (if uid AND NOT 0xFFFF \<noteq> 0 then 65534 else ucast uid)"

definition write_inode_owner :: "arch \<Rightarrow> bool \<Rightarrow> ext2_inode_info \<Rightarrow> nat \<Rightarrow> mem \<Rightarrow> mem" where
  "write_inode_owner A no_uid32 ei r m =
     (let uid = i_uid (vfs_inode ei); gid = i_gid (vfs_inode ei) in
      if \<not> no_uid32 then
        let m1 = le_store A m (r + 2) (ucast uid :: u16);
            m2 = le_store A m1 (r + 24) (ucast gid :: u16) in
        if i_dtime ei = 0 then
          le_store A (le_store A m2 (r + 120) (ucast (drop_bit 16 uid) :: u16))
            (r + 122) (ucast (drop_bit 16 gid) :: u16)
        else store_word A (store_word A m2 (r + 120) (0 :: u16)) (r + 122) (0 :: u16)
      else
        let m1 = le_store A m (r + 2) (fs_high2lowid uid);
            m2 = le_store A m1 (r + 24) (fs_high2lowid gid) in
        store_word A (store_word A m2 (r + 120) (0 :: u16)) (r + 122) (0 :: u16))"

text \<open>From the link count to the access list of a directory, the GPS fields included.\<close>

definition write_inode_fields :: "arch \<Rightarrow> ext2_inode_info \<Rightarrow> nat \<Rightarrow> mem \<Rightarrow> mem" where
  "write_inode_fields A ei r m =
     (let v = vfs_inode ei;
          m = le_store A m (r + 26) (ucast (i_nlink v) :: u16);
          m = le_store A m (r + 4) (ucast (i_size v) :: u32);
          m = le_store A m (r + 8) (tv_sec (i_atime v));
          m = le_store A m (r + 12) (tv_sec (i_ctime v));
          m = le_store A m (r + 16) (tv_sec (i_mtime v));
          m = le_store A m (r + 128) (d_latitude (i_gps ei));
          m = le_store A m (r + 136) (d_longitude (i_gps ei));
          m = le_store A m (r + 144) (d_accuracy (i_gps ei));
          m = le_store A m (r + 148) (d_age (i_gps ei));
          m = le_store A m (r + 28) (ucast (i_blocks v) :: u32);
          m = le_store A m (r + 20) (i_dtime ei);
          m = le_store A m (r + 32) (i_flags ei);
          m = le_store A m (r + 112) (i_faddr ei);
          m = m(r + 116 := i_frag_no ei);
          m = m(r + 117 := i_frag_size ei);
          m = le_store A m (r + 104) (i_file_acl ei) in
      if \<not> S_ISREG (i_mode v) then le_store A m (r + 108) (i_dir_acl ei)
      else le_store A m (r + 108) (ucast (drop_bit 32 (i_size v)) :: u32))"

definition write_inode_blocks :: "arch \<Rightarrow> ext2_inode_info \<Rightarrow> nat \<Rightarrow> mem \<Rightarrow> mem" where
  "write_inode_blocks A ei r m =
     (let v = vfs_inode ei; m = le_store A m (r + 100) (i_generation v) in
      if S_ISCHR (i_mode v) \<or> S_ISBLK (i_mode v) then
        (if old_valid_dev (i_rdev v) then
           store_word A (le_store A m (r + 40) (ucast (old_encode_dev (i_rdev v)) :: u32)) (r + 44) (0 :: u32)
         else
           store_word A (le_store A (store_word A m (r + 40) (0 :: u32)) (r + 44)
             (new_encode_dev (i_rdev v))) (r + 48) (0 :: u32))
      else store_words A m (r + 40) (i_data ei))"

definition raw_inode_store :: "arch \<Rightarrow> bool \<Rightarrow> nat \<Rightarrow> ext2_inode_info \<Rightarrow> nat \<Rightarrow> mem \<Rightarrow> mem" where
  "raw_inode_store A no_uid32 isize ei r m =
     (let m1 = (if has_flag (ei_state ei) EXT2_STATE_NEW then write_bytes m r (replicate isize 0) else m);
          m2 = le_store A m1 r (i_mode (vfs_inode ei)) in
      write_inode_blocks A ei r (write_inode_fields A ei r (write_inode_owner A no_uid32 ei r m2)))"

text \<open>The first large file switches the superblock to the dynamic revision and sets the flag.\<close>

definition write_inode_large_file :: "ext2_inode_info \<Rightarrow> kstate \<Rightarrow> kstate" where
  "write_inode_large_file ei s =
     (if S_ISREG (i_mode (vfs_inode ei)) \<and> i_size (vfs_inode ei) > 0x7fffffff \<and>
         (\<not> EXT2_HAS_RO_COMPAT_FEATURE s RO_COMPAT_LARGE_FILE \<or> es_rev_level (ks_es s) = EXT2_GOOD_OLD_REV)
      then ext2_write_super
        (EXT2_SET_RO_COMPAT_FEATURE RO_COMPAT_LARGE_FILE (ext2_update_dynamic_rev s))
      else s)"

text \<open>\<open>sync_failed\<close>: the synchronous write of the buffer reported an I/O error.\<close>

definition ext2_write_inode_raw :: "nat \<Rightarrow> bool \<Rightarrow> bool \<Rightarrow> kstate \<Rightarrow> int \<times> kstate" where
  "ext2_write_inode_raw ino do_sync sync_failed s =
     (case ks_icache s ino of
        None \<Rightarrow> (- EIO, s)
      | Some ei \<Rightarrow>
          (case ext2_get_inode ino s of
             (Inl _, s1) \<Rightarrow> (- EIO, s1)
           | (Inr (block, r), s1) \<Rightarrow>
               (let ei1 = ext2_get_inode_flags ei;
                    s2 = write_inode_large_file ei1 s1;
                    m = raw_inode_store (ks_arch s) (test_opt s MOUNT_NO_UID32)
                          (s_inode_size (ks_sbi s)) ei1 r (the (ks_dev s1 block));
                    s3 = s2\<lparr>ks_dev := (ks_dev s2)(block \<mapsto> m)\<rparr>;
                    ei2 = ei1\<lparr>ei_state := ei_state ei1 AND NOT EXT2_STATE_NEW\<rparr> in
                (if do_sync \<and> sync_failed then - EIO else 0, put_inode ino ei2 s3))))"

definition ext2_write_inode :: "nat \<Rightarrow> bool \<Rightarrow> bool \<Rightarrow> kstate \<Rightarrow> int \<times> kstate" where
  "ext2_write_inode ino wb_sync_all sync_failed s = ext2_write_inode_raw ino wb_sync_all sync_failed s"

section \<open>What a raw inode holds after it was written\<close>

lemmas raw_store_defs = write_inode_owner_def write_inode_fields_def write_inode_blocks_def Let_def

text \<open>Each part of the store leaves the fields of the others alone.\<close>

lemma write_inode_blocks_le_load:
  assumes "length (i_data ei) = 15"
    and "b + LENGTH('b) div 8 \<le> r + 40 \<or> r + 104 \<le> b"
  shows "le_load A (write_inode_blocks A ei r m) b = (le_load A m b :: 'b::len word)"
  using assms unfolding write_inode_blocks_def Let_def
  by (auto simp: mem_simps split: if_splits)

lemma write_inode_owner_le_load:
  assumes "b + LENGTH('b) div 8 \<le> r + 2 \<or> r + 4 \<le> b"
    and "b + LENGTH('b) div 8 \<le> r + 24 \<or> r + 26 \<le> b"
    and "b + LENGTH('b) div 8 \<le> r + 120 \<or> r + 124 \<le> b"
  shows "le_load A (write_inode_owner A no32 ei r m) b = (le_load A m b :: 'b::len word)"
proof -
  have "b + LENGTH('b) div 8 \<le> r + 120 \<or> r + 120 + 2 \<le> b"
    and "b + LENGTH('b) div 8 \<le> r + 122 \<or> r + 122 + 2 \<le> b"
    and "b + LENGTH('b) div 8 \<le> r + 2 \<or> r + 2 + 2 \<le> b"
    and "b + LENGTH('b) div 8 \<le> r + 24 \<or> r + 24 + 2 \<le> b"
    using assms by linarith+
  then show ?thesis
    unfolding write_inode_owner_def Let_def by (auto simp: mem_simps)
qed

lemma write_inode_fields_le_load:
  assumes "b + LENGTH('b) div 8 \<le> r + 4 \<or> b = r + 24 \<and> LENGTH('b) = 16 \<or>
    b = r + 120 \<and> LENGTH('b) = 16 \<or> b = r + 122 \<and> LENGTH('b) = 16"
  shows "le_load A (write_inode_fields A ei r m) b = (le_load A m b :: 'b::len word)"
  using assms unfolding write_inode_fields_def Let_def by (auto simp: mem_simps)

lemma write_inode_fields_loads:
  fixes ei r m A
  defines "m' \<equiv> write_inode_fields A ei r m"
  shows "le_load A m' (r + 26) = (ucast (i_nlink (vfs_inode ei)) :: u16)"
    and "le_load A m' (r + 4) = (ucast (i_size (vfs_inode ei)) :: u32)"
    and "le_load A m' (r + 8) = tv_sec (i_atime (vfs_inode ei))"
    and "le_load A m' (r + 12) = tv_sec (i_ctime (vfs_inode ei))"
    and "le_load A m' (r + 16) = tv_sec (i_mtime (vfs_inode ei))"
    and "le_load A m' (r + 128) = d_latitude (i_gps ei)"
    and "le_load A m' (r + 136) = d_longitude (i_gps ei)"
    and "le_load A m' (r + 144) = d_accuracy (i_gps ei)"
    and "le_load A m' (r + 148) = d_age (i_gps ei)"
    and "le_load A m' (r + 28) = (ucast (i_blocks (vfs_inode ei)) :: u32)"
    and "le_load A m' (r + 20) = i_dtime ei"
    and "le_load A m' (r + 32) = i_flags ei"
    and "le_load A m' (r + 112) = i_faddr ei"
    and "le_load A m' (r + 104) = i_file_acl ei"
    and "le_load A m' (r + 108) =
      (if S_ISREG (i_mode (vfs_inode ei)) then ucast (drop_bit 32 (i_size (vfs_inode ei))) else i_dir_acl ei)"
    and "m' (r + 116) = i_frag_no ei" and "m' (r + 117) = i_frag_size ei"
  unfolding m'_def write_inode_fields_def Let_def by (auto simp: mem_simps)

lemma write_inode_owner_loads:
  fixes ei r m A
  defines "m' \<equiv> write_inode_owner A False ei r m"
  assumes "i_dtime ei = 0"
  shows "le_load A m' (r + 2) = (ucast (i_uid (vfs_inode ei)) :: u16)"
    and "le_load A m' (r + 24) = (ucast (i_gid (vfs_inode ei)) :: u16)"
    and "le_load A m' (r + 120) = (ucast (drop_bit 16 (i_uid (vfs_inode ei))) :: u16)"
    and "le_load A m' (r + 122) = (ucast (drop_bit 16 (i_gid (vfs_inode ei))) :: u16)"
  using assms(2) unfolding m'_def write_inode_owner_def Let_def by (auto simp: mem_simps)

lemma write_inode_blocks_generation:
  assumes "length (i_data ei) = 15"
  shows "le_load A (write_inode_blocks A ei r m) (r + 100) = i_generation (vfs_inode ei)"
  using assms unfolding write_inode_blocks_def Let_def by (auto simp: mem_simps)

lemma write_inode_blocks_byte:
  assumes "length (i_data ei) = 15" "x < r + 40 \<or> r + 104 \<le> x"
  shows "write_inode_blocks A ei r m x = m x"
  using assms unfolding write_inode_blocks_def Let_def by (auto simp: mem_simps)

lemma write_inode_blocks_data:
  assumes "length (i_data ei) = 15"
    and "\<not> S_ISCHR (i_mode (vfs_inode ei))" "\<not> S_ISBLK (i_mode (vfs_inode ei))"
  shows "load_words A (write_inode_blocks A ei r m) (r + 40) 15 = i_data ei"
proof -
  have "load_words A (store_words A m' (r + 40) (i_data ei)) (r + 40) (length (i_data ei)) = i_data ei" for m'
    by (rule load_store_words)
  then show ?thesis
    using assms by (simp add: write_inode_blocks_def Let_def)
qed

text \<open>The fields read back from a stored inode, at the offsets \<open>ext2_iget\<close> reads them.\<close>

lemma raw_inode_store_loads:
  fixes A n ei r m
  defines "m' \<equiv> raw_inode_store A False n ei r m"
  assumes len: "length (i_data ei) = 15"
  shows "le_load A m' r = i_mode (vfs_inode ei)"
    and "le_load A m' (r + 26) = (ucast (i_nlink (vfs_inode ei)) :: u16)"
    and "le_load A m' (r + 4) = (ucast (i_size (vfs_inode ei)) :: u32)"
    and "le_load A m' (r + 8) = tv_sec (i_atime (vfs_inode ei))"
    and "le_load A m' (r + 12) = tv_sec (i_ctime (vfs_inode ei))"
    and "le_load A m' (r + 16) = tv_sec (i_mtime (vfs_inode ei))"
    and "le_load A m' (r + 128) = d_latitude (i_gps ei)"
    and "le_load A m' (r + 136) = d_longitude (i_gps ei)"
    and "le_load A m' (r + 144) = d_accuracy (i_gps ei)"
    and "le_load A m' (r + 148) = d_age (i_gps ei)"
    and "le_load A m' (r + 28) = (ucast (i_blocks (vfs_inode ei)) :: u32)"
    and "le_load A m' (r + 20) = i_dtime ei"
    and "le_load A m' (r + 32) = i_flags ei"
    and "le_load A m' (r + 112) = i_faddr ei"
    and "le_load A m' (r + 104) = i_file_acl ei"
    and "le_load A m' (r + 108) =
      (if S_ISREG (i_mode (vfs_inode ei)) then ucast (drop_bit 32 (i_size (vfs_inode ei))) else i_dir_acl ei)"
    and "m' (r + 116) = i_frag_no ei" and "m' (r + 117) = i_frag_size ei"
    and "le_load A m' (r + 100) = i_generation (vfs_inode ei)"
  unfolding m'_def raw_inode_store_def Let_def
  by (simp_all add: len write_inode_blocks_le_load write_inode_fields_loads write_inode_fields_le_load
      write_inode_owner_le_load le_load_store_same write_inode_blocks_generation write_inode_blocks_byte)

lemma raw_inode_store_owner:
  fixes A n ei r m
  defines "m' \<equiv> raw_inode_store A False n ei r m"
  assumes len: "length (i_data ei) = 15" and dt: "i_dtime ei = 0"
  shows "le_load A m' (r + 2) = (ucast (i_uid (vfs_inode ei)) :: u16)"
    and "le_load A m' (r + 24) = (ucast (i_gid (vfs_inode ei)) :: u16)"
    and "le_load A m' (r + 120) = (ucast (drop_bit 16 (i_uid (vfs_inode ei))) :: u16)"
    and "le_load A m' (r + 122) = (ucast (drop_bit 16 (i_gid (vfs_inode ei))) :: u16)"
  unfolding m'_def raw_inode_store_def Let_def
  by (simp_all add: len dt write_inode_blocks_le_load write_inode_fields_le_load write_inode_owner_loads
      del: add_2_eq_Suc')

lemma raw_inode_store_data:
  assumes "length (i_data ei) = 15"
    and "\<not> S_ISCHR (i_mode (vfs_inode ei))" "\<not> S_ISBLK (i_mode (vfs_inode ei))"
  shows "load_words A (raw_inode_store A no32 n ei r m) (r + 40) 15 = i_data ei"
  using assms by (simp add: raw_inode_store_def Let_def write_inode_blocks_data)

text \<open>A write stays within the larger of the inode slot and the 152 bytes of the structure.\<close>

lemma raw_inode_store_outside:
  assumes "length (i_data ei) = 15" "x < r \<or> r + max n 152 \<le> x"
  shows "raw_inode_store A no32 n ei r m x = m x"
proof -
  have "x < r \<or> r + 152 \<le> x" "x < r \<or> r + length (replicate n (0 :: u8)) \<le> x"
    using assms(2) by auto
  then show ?thesis
    using assms(1) unfolding raw_inode_store_def Let_def write_inode_fields_def write_inode_owner_def
    by (auto simp: mem_simps write_inode_blocks_byte)
qed

text \<open>
  The latitude of an inode is stored at bytes 128 to 135, past the end of a 128-byte slot: in the
  next slot those are the mode, the owner and the low half of the size.
\<close>

lemma le_bytes_take_16: "(of_le_bytes (take 2 (le_bytes (w :: u64))) :: u16) = ucast w"
proof (rule bit_word_eqI)
  fix n assume n: "n < LENGTH(16)"
  then have "n div 8 < 2" by simp
  then show "bit (of_le_bytes (take 2 (le_bytes w)) :: u16) n = bit (ucast w :: u16) n"
    using n by (simp add: bit_of_le_bytes le_bytes_def bit_simps mult.commute)
qed

lemma raw_inode_store_next_mode:
  assumes "length (i_data ei) = 15"
  shows "le_load A (raw_inode_store A False n ei r m) (r + 128) = (ucast (d_latitude (i_gps ei)) :: u16)"
proof -
  let ?m = "raw_inode_store A False n ei r m"
  have "read_bytes ?m (r + 128) 8 = le_bytes (d_latitude (i_gps ei))"
    using read_bytes_le_load [where 'a = 64, of ?m "r + 128" A] raw_inode_store_loads(7) [OF assms]
    by simp
  then have "read_bytes ?m (r + 128) 2 = take 2 (le_bytes (d_latitude (i_gps ei)))"
    using take_read_bytes [of 2 8 ?m "r + 128"] by simp
  then show ?thesis
    by (simp add: le_load_bytes le_bytes_take_16)
qed

section \<open>Device numbers and flags\<close>

lemma dev_masks:
  "(0xFF :: u32) = mask 8" "(0xFFFFF :: u32) = mask 20" "(0xFFF00 :: u32) = push_bit 8 (mask 12)"
  "(255 :: u16) = mask 8"
  by (simp_all add: mask_eq_exp_minus_1)

lemma MAJOR_MINOR_bits:
  "bit (MAJOR dev) n \<longleftrightarrow> bit dev (n + 20)" "bit (MINOR dev) n \<longleftrightarrow> n < 20 \<and> bit dev n"
  by (auto simp: MAJOR_def MINOR_def dev_masks(2) bit_simps add.commute)

lemma new_encode_dev_bits:
  assumes "n < 32"
  shows "bit (new_encode_dev dev) n \<longleftrightarrow>
    (if n < 8 then bit dev n else if n < 20 then bit dev (n + 12) else bit dev (n - 12))"
proof -
  have "\<not> bit dev (n + 12)" if "20 \<le> n"
    using bit_imp_le_length [of dev "n + 12"] that by auto
  then show ?thesis
    using assms unfolding new_encode_dev_def Let_def dev_masks(1)
    by (auto simp: bit_simps MAJOR_MINOR_bits add.commute split: if_splits)
qed

lemma new_decode_dev_bits:
  assumes "n < 32"
  shows "bit (new_decode_dev d) n \<longleftrightarrow>
    (if n < 8 then bit d n else if n < 20 then bit d (n + 12) else bit d (n - 12))"
  using assms unfolding new_decode_dev_def MKDEV_def Let_def dev_masks
  by (auto simp: bit_simps add.commute split: if_splits)

lemma new_decode_encode_dev: "new_decode_dev (new_encode_dev dev) = dev"
  by (rule bit_word_eqI) (auto simp: new_decode_dev_bits new_encode_dev_bits)

lemma small_bits:
  assumes "(w :: u32) < 256" shows "w = take_bit 8 w"
proof -
  have "unat w < 256" using assms by (simp add: word_less_nat_alt)
  then have "take_bit 8 (unat w) = unat w" by (simp add: take_bit_nat_eq_self_iff)
  then show ?thesis
    by (simp add: word_unat_eq_iff unsigned_take_bit_eq)
qed

lemma old_valid_bits:
  assumes "old_valid_dev dev" "bit dev n"
  shows "n < 8 \<or> 20 \<le> n \<and> n < 28"
proof -
  have ma: "drop_bit 20 dev = take_bit 8 (drop_bit 20 dev)"
    and mi: "dev AND mask 20 = take_bit 8 (dev AND mask 20)"
    using assms(1) small_bits [of "drop_bit 20 dev"] small_bits [of "dev AND mask 20"]
    unfolding old_valid_dev_def MAJOR_def MINOR_def dev_masks(2) by blast+
  show ?thesis
  proof (cases "n < 20")
    case True
    then have "bit (dev AND mask 20) n" using assms(2) by (simp add: bit_simps)
    then have "n < 8" by (subst (asm) mi) (simp add: bit_simps)
    then show ?thesis ..
  next
    case False
    then have "bit (drop_bit 20 dev) (n - 20)" using assms(2) by (simp add: bit_simps)
    then have "n - 20 < 8" by (subst (asm) ma) (simp add: bit_simps)
    then show ?thesis using False by linarith
  qed
qed

lemma old_decode_encode_dev:
  assumes "old_valid_dev dev"
  shows "old_decode_dev (old_encode_dev dev) = dev"
proof (rule bit_word_eqI)
  fix n assume n: "n < LENGTH(32)"
  have "bit (old_decode_dev (old_encode_dev dev)) n \<longleftrightarrow>
      n < 8 \<and> bit dev n \<or> 20 \<le> n \<and> n < 28 \<and> (bit dev n \<or> bit dev (n - 12))"
    unfolding old_decode_dev_def old_encode_dev_def MAJOR_def MINOR_def MKDEV_def dev_masks
    using n by (auto simp: bit_simps)
  moreover have "\<not> bit dev (n - 12)" if "20 \<le> n" "n < 28"
    using old_valid_bits [OF assms, of "n - 12"] that by auto
  ultimately show "bit (old_decode_dev (old_encode_dev dev)) n = bit dev n"
    using old_valid_bits [OF assms, of n] by blast
qed

lemma old_encode_dev_nonzero:
  assumes "old_valid_dev dev" "dev \<noteq> 0"
  shows "old_encode_dev dev \<noteq> 0"
  using old_decode_encode_dev [OF assms(1)] assms(2)
  by (auto simp: old_decode_dev_def MKDEV_def)

text \<open>The five flags the VFS and ext2 share survive the conversion in either direction.\<close>

definition shared_vfs_flags :: u32 where
  "shared_vfs_flags = S_SYNC OR S_APPEND OR S_IMMUTABLE OR S_NOATIME OR S_DIRSYNC"

lemma single_bits:
  "has_flag x (1 :: u32) = bit x 0" "has_flag x (2 :: u32) = bit x 1" "has_flag x (4 :: u32) = bit x 2"
  "has_flag x (8 :: u32) = bit x 3" "has_flag x (0x10 :: u32) = bit x 4" "has_flag x (0x20 :: u32) = bit x 5"
  "has_flag x (0x40 :: u32) = bit x 6" "has_flag x (0x80 :: u32) = bit x 7"
  "has_flag x (0x10000 :: u32) = bit x 16"
proof -
  have "has_flag x (2 ^ n) = bit x n" if "n < 32" for n
    by (simp add: has_flag_def and_exp_eq_0_iff_not_bit)
  from this [of 0] this [of 1] this [of 2] this [of 3] this [of 4] this [of 5] this [of 6] this [of 7]
    this [of 16]
  show "has_flag x (1 :: u32) = bit x 0" "has_flag x (2 :: u32) = bit x 1" "has_flag x (4 :: u32) = bit x 2"
    "has_flag x (8 :: u32) = bit x 3" "has_flag x (0x10 :: u32) = bit x 4" "has_flag x (0x20 :: u32) = bit x 5"
    "has_flag x (0x40 :: u32) = bit x 6" "has_flag x (0x80 :: u32) = bit x 7"
    "has_flag x (0x10000 :: u32) = bit x 16"
    by simp_all
qed

lemma and_single_bit: "(x :: u32) AND 2 ^ n = flag_if (bit x n) (2 ^ n)"
  by (rule bit_word_eqI) (auto simp: flag_if_def bit_simps)

lemma and_shared_vfs_flags:
  "x AND shared_vfs_flags =
     flag_if (bit x 0) S_SYNC OR flag_if (bit x 2) S_APPEND OR flag_if (bit x 3) S_IMMUTABLE OR
     flag_if (bit x 1) S_NOATIME OR flag_if (bit x 6) S_DIRSYNC"
  using and_single_bit [of x 0] and_single_bit [of x 1] and_single_bit [of x 2]
    and_single_bit [of x 3] and_single_bit [of x 6]
  unfolding shared_vfs_flags_def bit.conj_disj_distrib by simp

lemma bit_flag_if: "bit (flag_if b f) n \<longleftrightarrow> b \<and> bit f n"
  by (simp add: flag_if_def)

lemma get_inode_flags_bits:
  fixes ei
  defines "f \<equiv> i_flags (ext2_get_inode_flags ei)" and "x \<equiv> i_flags_vfs (vfs_inode ei)"
  shows "has_flag f EXT2_SYNC_FL = bit x 0" "has_flag f EXT2_APPEND_FL = bit x 2"
    "has_flag f EXT2_IMMUTABLE_FL = bit x 3" "has_flag f EXT2_NOATIME_FL = bit x 1"
    "has_flag f EXT2_DIRSYNC_FL = bit x 6"
  unfolding f_def x_def ext2_get_inode_flags_def Let_def single_bits
  by (simp_all add: bit_or_iff bit_and_iff bit_not_iff bit_flag_if single_bits)

lemma set_inode_flags_of_get:
  assumes "i_flags ei' = i_flags (ext2_get_inode_flags ei)" "i_flags_vfs (vfs_inode ei') = 0"
  shows "i_flags_vfs (vfs_inode (ext2_set_inode_flags ei')) =
    i_flags_vfs (vfs_inode ei) AND shared_vfs_flags"
  using assms
  by (simp add: ext2_set_inode_flags_def upd_vfs_def get_inode_flags_bits and_shared_vfs_flags Let_def)

section \<open>Where an inode is\<close>

definition inode_place :: "kstate \<Rightarrow> nat \<Rightarrow> (nat \<times> nat) option" where
  "inode_place s ino =
     (let sbi = ks_sbi s in
      if (ino \<noteq> EXT2_ROOT_INO \<and> ino < s_first_ino sbi) \<or> ino > unat (es_inodes_count (ks_es s)) then None
      else case lookup_group_desc s ((ino - 1) div s_inodes_per_group sbi) of
        None \<Rightarrow> None
      | Some gdp \<Rightarrow>
          (let offset = ((ino - 1) mod s_inodes_per_group sbi) * s_inode_size sbi;
               block = bg_inode_table gdp + drop_bit (s_blocksize_bits (ks_sb s)) offset in
           if ks_dev s block = None then None
           else Some (block, nat (int offset AND (int (s_blocksize (ks_sb s)) - 1)))))"

lemma ext2_get_inode_place:
  "inode_place s ino = Some p \<Longrightarrow> ext2_get_inode ino s = (Inr p, s)"
  by (auto simp: inode_place_def ext2_get_inode_def Let_def ext2_get_group_desc_Some
      split: if_splits option.splits)

lemma inode_place_dev: "inode_place s ino = Some (b, r) \<Longrightarrow> \<exists>m. ks_dev s b = Some m"
  by (auto simp: inode_place_def Let_def split: if_splits option.splits)

lemma ext2_get_inode_no_place:
  "inode_place s ino = None \<Longrightarrow> \<exists>e s'. ext2_get_inode ino s = (Inl e, s') \<and> e \<in> {- EINVAL, - EIO} \<and> s' = ext2_error s"
  by (auto simp: inode_place_def ext2_get_inode_def Let_def ext2_get_group_desc_Some
      ext2_get_group_desc_None split: if_splits option.splits)

lemma lookup_group_desc_cong:
  "ks_sbi s' = ks_sbi s \<Longrightarrow> ks_gdesc s' = ks_gdesc s \<Longrightarrow> lookup_group_desc s' = lookup_group_desc s"
  by (simp add: fun_eq_iff lookup_group_desc_def group_desc_index_def group_desc_offset_def)

lemma inode_place_cong:
  assumes "ks_sbi s' = ks_sbi s" "ks_gdesc s' = ks_gdesc s" "ks_es s' = ks_es s \<or> es_inodes_count (ks_es s') = es_inodes_count (ks_es s)"
    "s_blocksize (ks_sb s') = s_blocksize (ks_sb s)" "s_blocksize_bits (ks_sb s') = s_blocksize_bits (ks_sb s)"
    "\<And>b. ks_dev s' b = None \<longleftrightarrow> ks_dev s b = None"
  shows "inode_place s' = inode_place s"
  using assms lookup_group_desc_cong [of s' s]
  by (auto simp: fun_eq_iff inode_place_def Let_def split: option.splits)

section \<open>Reading back what was written\<close>

text \<open>
  An in-core inode whose fields fit their on-disk widths, and what a second in-core inode has to
  agree on to carry the same persistent data.
\<close>

definition inode_storable :: "ext2_inode_info \<Rightarrow> bool" where
  "inode_storable ei \<longleftrightarrow>
     length (i_data ei) = 15 \<and> i_dtime ei = 0 \<and> i_nlink (vfs_inode ei) \<noteq> 0 \<and>
     unat (i_nlink (vfs_inode ei)) < 2 ^ 16 \<and> unat (i_blocks (vfs_inode ei)) < 2 ^ 32 \<and>
     (S_ISREG (i_mode (vfs_inode ei)) \<or> unat (i_size (vfs_inode ei)) < 2 ^ 32)"

definition same_persistent :: "ext2_inode_info \<Rightarrow> ext2_inode_info \<Rightarrow> bool" where
  "same_persistent ei ei' \<longleftrightarrow>
     (let v = vfs_inode ei; v' = vfs_inode ei' in
      i_mode v' = i_mode v \<and> i_uid v' = i_uid v \<and> i_gid v' = i_gid v \<and> i_nlink v' = i_nlink v \<and>
      i_size v' = i_size v \<and> tv_sec (i_atime v') = tv_sec (i_atime v) \<and>
      tv_sec (i_mtime v') = tv_sec (i_mtime v) \<and> tv_sec (i_ctime v') = tv_sec (i_ctime v) \<and>
      i_blocks v' = i_blocks v \<and> i_generation v' = i_generation v \<and>
      i_flags_vfs v' = i_flags_vfs v AND shared_vfs_flags \<and>
      i_gps ei' = i_gps ei \<and> i_faddr ei' = i_faddr ei \<and> i_frag_no ei' = i_frag_no ei \<and>
      i_frag_size ei' = i_frag_size ei \<and> i_file_acl ei' = i_file_acl ei \<and>
      (\<not> S_ISREG (i_mode v) \<longrightarrow> i_dir_acl ei' = i_dir_acl ei) \<and>
      (\<not> S_ISCHR (i_mode v) \<and> \<not> S_ISBLK (i_mode v) \<and> \<not> S_ISLNK (i_mode v) \<longrightarrow> i_data ei' = i_data ei) \<and>
      (S_ISCHR (i_mode v) \<or> S_ISBLK (i_mode v) \<longrightarrow> i_rdev v' = i_rdev v))"

text \<open>The inode that \<open>ext2_iget\<close> puts in the cache when it reads it from bytes \<open>m\<close> at \<open>r\<close>.\<close>

definition iget_new :: "nat \<Rightarrow> kstate \<Rightarrow> mem \<Rightarrow> nat \<Rightarrow> ext2_inode_info" where
  "iget_new ino s m r =
     (let e = upd_vfs (\<lambda>v. v\<lparr>i_ino := ino, i_state_vfs := I_NEW\<rparr>)
                (inode_init_always (upd_vfs (\<lambda>v. v\<lparr>i_version := 1\<rparr>) ((ks_slab s)\<lparr>i_block_alloc_info := None\<rparr>)));
          ei1 = iget_read_head (ks_arch s) (test_opt s MOUNT_NO_UID32) m r (e\<lparr>i_block_alloc_info := None\<rparr>);
          ei2 = iget_read_rest (ks_arch s) m r ((ino - 1) div s_inodes_per_group (ks_sbi s)) ei1 in
      unlock_new_inode (ext2_set_inode_flags (iget_set_ops s m r ei2)))"

lemma put_inode_keeps [simp]:
  "ks_sbi (put_inode i e s) = ks_sbi s" "ks_es (put_inode i e s) = ks_es s"
  "ks_sb (put_inode i e s) = ks_sb s" "ks_dev (put_inode i e s) = ks_dev s"
  "ks_gdesc (put_inode i e s) = ks_gdesc s" "ks_arch (put_inode i e s) = ks_arch s"
  "ks_slab (put_inode i e s) = ks_slab s" "ks_oom (put_inode i e s) = ks_oom s"
  "ks_now (put_inode i e s) = ks_now s" "ks_gps (put_inode i e s) = ks_gps s"
  "ks_pages (put_inode i e s) = ks_pages s" "ks_panic (put_inode i e s) = ks_panic s"
  "ks_uptodate (put_inode i e s) = ks_uptodate s"
  "ks_icache (put_inode i e s) = (ks_icache s)(i \<mapsto> e)"
  "put_inode i e (put_inode i e' s) = put_inode i e s"
  by (simp_all add: put_inode_def)

lemma inode_place_put_inode [simp]: "inode_place (put_inode i e s) = inode_place s"
  by (rule inode_place_cong) simp_all

lemma test_opt_put_inode [simp]: "test_opt (put_inode i e s) x = test_opt s x"
  by (simp add: test_opt_def)

lemma ops_put_inode [simp]:
  "ext2_data_aops (put_inode i e s) = ext2_data_aops s"
  "ext2_inode_is_fast_symlink (put_inode i e s) x = ext2_inode_is_fast_symlink s x"
  by (simp_all add: ext2_data_aops_def ext2_inode_is_fast_symlink_def)

lemma iget_set_ops_put_inode [simp]: "iget_set_ops (put_inode i e s) m r x = iget_set_ops s m r x"
  by (simp add: iget_set_ops_def Let_def)

lemma ext2_iget_fresh:
  assumes "ks_icache s ino = None" "\<not> ks_oom s" "inode_place s ino = Some (b, r)" "ks_dev s b = Some m"
    and "le_load (ks_arch s) m (r + 26) \<noteq> (0 :: u16)"
  shows "ext2_iget ino s = (Inr ino, put_inode ino (iget_new ino s m r) s)"
proof -
  have "has_flag I_NEW I_NEW" by (simp add: has_flag_def)
  moreover have "ucast (le_load (ks_arch s) m (r + 26) :: u16) \<noteq> (0 :: u32)"
    using assms(5) by (simp add: ucast_up_eq_0)
  ultimately show ?thesis
    using assms(1-4)
    by (simp add: ext2_iget_def iget_locked_def ext2_alloc_inode_def Let_def
        ext2_get_inode_place iget_new_def test_opt_def)
      (simp add: upd_vfs_def inode_init_always_def iget_read_head_def Let_def)
qed

lemma init_special_inode_keeps [simp]:
  "i_mode (init_special_inode mode d v) = mode"
  "i_uid (init_special_inode mode d v) = i_uid v" "i_gid (init_special_inode mode d v) = i_gid v"
  "i_nlink (init_special_inode mode d v) = i_nlink v" "i_size (init_special_inode mode d v) = i_size v"
  "i_atime (init_special_inode mode d v) = i_atime v" "i_mtime (init_special_inode mode d v) = i_mtime v"
  "i_ctime (init_special_inode mode d v) = i_ctime v" "i_blocks (init_special_inode mode d v) = i_blocks v"
  "i_generation (init_special_inode mode d v) = i_generation v"
  "i_flags_vfs (init_special_inode mode d v) = i_flags_vfs v"
  "i_op (init_special_inode mode d v) = i_op v" "i_ino (init_special_inode mode d v) = i_ino v"
  "i_count (init_special_inode mode d v) = i_count v"
  "i_state_vfs (init_special_inode mode d v) = i_state_vfs v"
  by (simp_all add: init_special_inode_def Let_def)

lemma init_special_inode_rdev:
  "i_rdev (init_special_inode mode d v) = (if S_ISCHR mode \<or> S_ISBLK mode then d else i_rdev v)"
  by (simp add: init_special_inode_def Let_def)

lemma iget_set_ops_keeps [simp]:
  fixes s m r ei
  defines "ei' \<equiv> iget_set_ops s m r ei"
  shows "i_mode (vfs_inode ei') = i_mode (vfs_inode ei)" "i_uid (vfs_inode ei') = i_uid (vfs_inode ei)"
    "i_gid (vfs_inode ei') = i_gid (vfs_inode ei)" "i_nlink (vfs_inode ei') = i_nlink (vfs_inode ei)"
    "i_size (vfs_inode ei') = i_size (vfs_inode ei)" "i_atime (vfs_inode ei') = i_atime (vfs_inode ei)"
    "i_mtime (vfs_inode ei') = i_mtime (vfs_inode ei)" "i_ctime (vfs_inode ei') = i_ctime (vfs_inode ei)"
    "i_blocks (vfs_inode ei') = i_blocks (vfs_inode ei)"
    "i_generation (vfs_inode ei') = i_generation (vfs_inode ei)"
    "i_flags_vfs (vfs_inode ei') = i_flags_vfs (vfs_inode ei)" "i_ino (vfs_inode ei') = i_ino (vfs_inode ei)"
    "i_count (vfs_inode ei') = i_count (vfs_inode ei)"
    "i_state_vfs (vfs_inode ei') = i_state_vfs (vfs_inode ei)"
    "i_gps ei' = i_gps ei" "i_flags ei' = i_flags ei" "i_faddr ei' = i_faddr ei"
    "i_frag_no ei' = i_frag_no ei" "i_frag_size ei' = i_frag_size ei" "i_file_acl ei' = i_file_acl ei"
    "i_dir_acl ei' = i_dir_acl ei" "i_dtime ei' = i_dtime ei" "i_gps_lock ei' = i_gps_lock ei"
  by (simp_all add: ei'_def iget_set_ops_def Let_def upd_vfs_def)

lemma iget_set_ops_data:
  "\<not> S_ISLNK (i_mode (vfs_inode ei)) \<Longrightarrow> i_data (iget_set_ops s m r ei) = i_data ei"
  by (simp add: iget_set_ops_def Let_def upd_vfs_def)

lemma iget_set_ops_rdev:
  assumes "S_ISCHR (i_mode (vfs_inode ei)) \<or> S_ISBLK (i_mode (vfs_inode ei))"
  shows "i_rdev (vfs_inode (iget_set_ops s m r ei)) =
    (if load_word (ks_arch s) m (r + 40) \<noteq> (0 :: u32)
     then old_decode_dev (ucast (le_load (ks_arch s) m (r + 40) :: u32))
     else new_decode_dev (le_load (ks_arch s) m (r + 44)))"
proof -
  have "\<not> S_ISREG (i_mode (vfs_inode ei))" "\<not> S_ISDIR (i_mode (vfs_inode ei))"
    "\<not> S_ISLNK (i_mode (vfs_inode ei))"
    using assms S_IS_exclusive by blast+
  then show ?thesis
    using assms by (simp add: iget_set_ops_def Let_def upd_vfs_def init_special_inode_rdev)
qed

lemma set_inode_flags_keeps [simp]:
  fixes ei
  defines "ei' \<equiv> unlock_new_inode (ext2_set_inode_flags ei)"
  shows "i_mode (vfs_inode ei') = i_mode (vfs_inode ei)" "i_uid (vfs_inode ei') = i_uid (vfs_inode ei)"
    "i_gid (vfs_inode ei') = i_gid (vfs_inode ei)" "i_nlink (vfs_inode ei') = i_nlink (vfs_inode ei)"
    "i_size (vfs_inode ei') = i_size (vfs_inode ei)" "i_atime (vfs_inode ei') = i_atime (vfs_inode ei)"
    "i_mtime (vfs_inode ei') = i_mtime (vfs_inode ei)" "i_ctime (vfs_inode ei') = i_ctime (vfs_inode ei)"
    "i_blocks (vfs_inode ei') = i_blocks (vfs_inode ei)"
    "i_generation (vfs_inode ei') = i_generation (vfs_inode ei)"
    "i_rdev (vfs_inode ei') = i_rdev (vfs_inode ei)" "i_op (vfs_inode ei') = i_op (vfs_inode ei)"
    "i_count (vfs_inode ei') = i_count (vfs_inode ei)" "i_ino (vfs_inode ei') = i_ino (vfs_inode ei)"
    "i_flags_vfs (vfs_inode ei') = i_flags_vfs (vfs_inode (ext2_set_inode_flags ei))"
    "i_gps ei' = i_gps ei" "i_flags ei' = i_flags ei" "i_faddr ei' = i_faddr ei"
    "i_frag_no ei' = i_frag_no ei" "i_frag_size ei' = i_frag_size ei" "i_file_acl ei' = i_file_acl ei"
    "i_dir_acl ei' = i_dir_acl ei" "i_dtime ei' = i_dtime ei" "i_data ei' = i_data ei"
    "i_gps_lock ei' = i_gps_lock ei"
  by (simp_all add: ei'_def unlock_new_inode_def ext2_set_inode_flags_def Let_def upd_vfs_def)

text \<open>The fields of a freshly read inode, straight from the bytes.\<close>

lemma iget_new_fields:
  fixes ino s m r
  defines "v \<equiv> vfs_inode (iget_new ino s m r)" and "A \<equiv> ks_arch s"
  assumes no32: "\<not> test_opt s MOUNT_NO_UID32"
  shows "i_mode v = le_load A m r" 
    "i_uid v = (ucast (le_load A m (r + 2) :: u16) OR push_bit 16 (ucast (le_load A m (r + 120) :: u16)))"
    "i_gid v = (ucast (le_load A m (r + 24) :: u16) OR push_bit 16 (ucast (le_load A m (r + 122) :: u16)))"
    "i_nlink v = ucast (le_load A m (r + 26) :: u16)"
    "i_size v = (if S_ISREG (le_load A m r)
       then ucast (le_load A m (r + 4) :: u32) OR push_bit 32 (ucast (le_load A m (r + 108) :: u32))
       else ucast (le_load A m (r + 4) :: u32))"
    "tv_sec (i_atime v) = le_load A m (r + 8)" "tv_sec (i_ctime v) = le_load A m (r + 12)"
    "tv_sec (i_mtime v) = le_load A m (r + 16)"
    "i_blocks v = ucast (le_load A m (r + 28) :: u32)" "i_generation v = le_load A m (r + 100)"
    "i_count v = 1"
  unfolding v_def A_def using no32
  by (simp_all add: iget_new_def Let_def iget_read_rest_def iget_read_head_def upd_vfs_def inode_init_always_def)

lemma iget_new_ext2_fields:
  fixes ino s m r
  defines "ei \<equiv> iget_new ino s m r" and "A \<equiv> ks_arch s"
  shows "i_gps ei = \<lparr>d_latitude = le_load A m (r + 128), d_longitude = le_load A m (r + 136),
                     d_accuracy = le_load A m (r + 144), d_age = le_load A m (r + 148)\<rparr>"
    "i_flags ei = le_load A m (r + 32)" "i_faddr ei = le_load A m (r + 112)"
    "i_frag_no ei = m (r + 116)" "i_frag_size ei = m (r + 117)"
    "i_file_acl ei = le_load A m (r + 104)"
    "i_dir_acl ei = (if S_ISREG (le_load A m r) then 0 else le_load A m (r + 108))"
    "\<not> S_ISLNK (le_load A m r) \<Longrightarrow> i_data ei = load_words A m (r + 40) 15"
  unfolding ei_def A_def
  by (simp_all add: iget_new_def Let_def iget_read_rest_def iget_read_head_def upd_vfs_def iget_set_ops_data)

lemma get_inode_flags_keeps [simp]:
  "vfs_inode (ext2_get_inode_flags ei) = vfs_inode ei" "i_data (ext2_get_inode_flags ei) = i_data ei"
  "i_gps (ext2_get_inode_flags ei) = i_gps ei" "i_dtime (ext2_get_inode_flags ei) = i_dtime ei"
  "i_faddr (ext2_get_inode_flags ei) = i_faddr ei" "i_frag_no (ext2_get_inode_flags ei) = i_frag_no ei"
  "i_frag_size (ext2_get_inode_flags ei) = i_frag_size ei" "i_file_acl (ext2_get_inode_flags ei) = i_file_acl ei"
  "i_dir_acl (ext2_get_inode_flags ei) = i_dir_acl ei" "ei_state (ext2_get_inode_flags ei) = ei_state ei"
  by (simp_all add: ext2_get_inode_flags_def Let_def)

lemma load_zero_le: "load_word A m a = (0 :: u32) \<longleftrightarrow> le_load A m a = (0 :: u32)"
proof -
  have "le_to_cpu A (w :: u32) = 0 \<longleftrightarrow> w = 0" for w
  proof -
    have z: "le_to_cpu A (0 :: u32) = 0"
      by (rule bit_word_eqI) (cases A; auto simp: le_to_cpu_def bit_of_le_bytes mem_order_def le_bytes_def rev_nth)
    have "cpu_to_le A (le_to_cpu A w) = w"
      by (simp add: cpu_to_le_def le_to_cpu_def le_bytes_of_le_bytes of_le_bytes_le_bytes)
    moreover have "cpu_to_le A (0 :: u32) = 0" using z by (simp add: cpu_to_le_def le_to_cpu_def)
    ultimately show ?thesis using z by metis
  qed
  then show ?thesis by (simp add: le_load_def)
qed

lemma write_inode_blocks_rdev:
  fixes A ei r m
  defines "m' \<equiv> write_inode_blocks A ei r m" and "d \<equiv> i_rdev (vfs_inode ei)"
  assumes "S_ISCHR (i_mode (vfs_inode ei)) \<or> S_ISBLK (i_mode (vfs_inode ei))"
  shows "(if load_word A m' (r + 40) \<noteq> (0 :: u32) then old_decode_dev (ucast (le_load A m' (r + 40) :: u32))
      else new_decode_dev (le_load A m' (r + 44))) = d"
proof (cases "old_valid_dev d")
  case True
  then have l: "le_load A m' (r + 40) = (ucast (old_encode_dev d) :: u32)" "le_load A m' (r + 44) = (0 :: u32)"
    using assms(3) load_zero_le [of A m' "r + 44"] unfolding m'_def d_def write_inode_blocks_def Let_def
    by (auto simp: mem_simps)
  have "(ucast (ucast (old_encode_dev d) :: u32) :: u16) = old_encode_dev d"
    by (rule bit_word_eqI) (simp add: bit_simps)
  moreover have "ucast (old_encode_dev d) = (0 :: u32) \<Longrightarrow> d = 0"
    using old_encode_dev_nonzero [OF True] by (auto simp: ucast_up_eq_0)
  moreover have "new_decode_dev 0 = 0" by (simp add: new_decode_dev_def MKDEV_def)
  ultimately show ?thesis
    using l by (auto simp: load_zero_le old_decode_encode_dev True)
next
  case False
  then have "load_word A m' (r + 40) = (0 :: u32)" "le_load A m' (r + 44) = new_encode_dev d"
    using assms(3) unfolding m'_def d_def write_inode_blocks_def Let_def by (auto simp: mem_simps)
  then show ?thesis by (simp add: new_decode_encode_dev)
qed

lemma raw_inode_store_same_persistent:
  fixes s ei r m n ino
  defines "m' \<equiv> raw_inode_store (ks_arch s) False n (ext2_get_inode_flags ei) r m"
  assumes st: "inode_storable ei" and no32: "\<not> test_opt s MOUNT_NO_UID32"
  shows "same_persistent ei (iget_new ino s m' r)"
proof -
  let ?e = "ext2_get_inode_flags ei"
  let ?f = "iget_new ino s m' r"
  have len: "length (i_data ?e) = 15" and dt: "i_dtime ?e = 0"
    using st by (simp_all add: inode_storable_def)
  note loads = raw_inode_store_loads [OF len] raw_inode_store_owner [OF len dt]
  note flds = iget_new_fields [OF no32] iget_new_ext2_fields
  have mode: "le_load (ks_arch s) m' r = i_mode (vfs_inode ei)"
    unfolding m'_def by (simp add: loads)
  have owner: "i_uid (vfs_inode ?f) = i_uid (vfs_inode ei)" "i_gid (vfs_inode ?f) = i_gid (vfs_inode ei)"
    using halves_16_32 unfolding flds m'_def loads by simp_all
  have size: "i_size (vfs_inode ?f) = i_size (vfs_inode ei)"
  proof (cases "S_ISREG (i_mode (vfs_inode ei))")
    case True
    then show ?thesis using halves_32_64 unfolding flds m'_def loads by simp
  next
    case False
    then have "unat (i_size (vfs_inode ei)) < 2 ^ LENGTH(32)"
      using st by (simp add: inode_storable_def)
    from ucast_ucast_small [OF this] show ?thesis
      using False unfolding flds m'_def loads by simp
  qed
  have nlink: "i_nlink (vfs_inode ?f) = i_nlink (vfs_inode ei)"
    and blocks: "i_blocks (vfs_inode ?f) = i_blocks (vfs_inode ei)"
    using st unfolding flds m'_def loads by (simp_all add: inode_storable_def ucast_ucast_small)
  have flags: "i_flags_vfs (vfs_inode ?f) = i_flags_vfs (vfs_inode ei) AND shared_vfs_flags"
    unfolding iget_new_def Let_def set_inode_flags_keeps
    by (rule set_inode_flags_of_get)
      (simp_all add: iget_read_rest_def iget_read_head_def upd_vfs_def inode_init_always_def Let_def m'_def loads)
  have data: "i_data ?f = i_data ei"
    if "\<not> S_ISCHR (i_mode (vfs_inode ei))" "\<not> S_ISBLK (i_mode (vfs_inode ei))" "\<not> S_ISLNK (i_mode (vfs_inode ei))"
    using that raw_inode_store_data [OF len] by (simp add: flds mode) (simp add: m'_def)
  have rdev: "i_rdev (vfs_inode ?f) = i_rdev (vfs_inode ei)"
    if dev: "S_ISCHR (i_mode (vfs_inode ei)) \<or> S_ISBLK (i_mode (vfs_inode ei))"
  proof -
    have "i_mode (vfs_inode (iget_read_rest (ks_arch s) m' r g (iget_read_head (ks_arch s) b m' r x))) =
        i_mode (vfs_inode ei)" for g b x
      by (simp add: iget_read_rest_def iget_read_head_def upd_vfs_def Let_def mode)
    then show ?thesis
      using dev write_inode_blocks_rdev [of ?e "ks_arch s" r]
      by (simp add: iget_new_def Let_def iget_set_ops_rdev m'_def raw_inode_store_def)
  qed
  show ?thesis
    unfolding same_persistent_def Let_def
    using owner size nlink blocks flags data rdev
    by (simp add: flds mode) (simp add: m'_def loads)
qed

text \<open>The inode leaves the cache without being deleted, as under memory pressure or at unmount.\<close>

definition uncache :: "nat \<Rightarrow> kstate \<Rightarrow> kstate" where
  "uncache ino s = s\<lparr>ks_icache := (ks_icache s)(ino := None)\<rparr>"

lemma write_inode_large_file_keeps [simp]:
  fixes ei s
  defines "s' \<equiv> write_inode_large_file ei s"
  shows "ks_sbi s' = ks_sbi s" "ks_dev s' = ks_dev s" "ks_gdesc s' = ks_gdesc s" "ks_icache s' = ks_icache s"
    "ks_arch s' = ks_arch s" "ks_oom s' = ks_oom s" "ks_slab s' = ks_slab s" "ks_now s' = ks_now s"
    "ks_gps s' = ks_gps s" "ks_pages s' = ks_pages s"
    "s_blocksize (ks_sb s') = s_blocksize (ks_sb s)" "s_blocksize_bits (ks_sb s') = s_blocksize_bits (ks_sb s)"
    "es_inodes_count (ks_es s') = es_inodes_count (ks_es s)"
  by (simp_all add: s'_def write_inode_large_file_def ext2_write_super_def ext2_sync_fs_def
      EXT2_SET_RO_COMPAT_FEATURE_def ext2_update_dynamic_rev_def)
    (simp_all add: ext2_sync_super_def)

lemma ext2_write_inode_result:
  assumes "ks_icache s ino = Some ei" "inode_place s ino = Some (b, r)" "ks_dev s b = Some m"
  shows "ext2_write_inode ino do_sync False s =
    (0, put_inode ino ((ext2_get_inode_flags ei)\<lparr>ei_state := ei_state ei AND NOT EXT2_STATE_NEW\<rparr>)
      (let s2 = write_inode_large_file (ext2_get_inode_flags ei) s in
       s2\<lparr>ks_dev := (ks_dev s2)(b \<mapsto> raw_inode_store (ks_arch s) (test_opt s MOUNT_NO_UID32)
          (s_inode_size (ks_sbi s)) (ext2_get_inode_flags ei) r m)\<rparr>))"
  using assms
  by (simp add: ext2_write_inode_def ext2_write_inode_raw_def ext2_get_inode_place Let_def)

text \<open>The state after the write: the same places, the new bytes in the block of the inode.\<close>

lemma ext2_write_inode_state:
  fixes s ino ei b r m do_sync
  defines "s' \<equiv> snd (ext2_write_inode ino do_sync False s)"
  assumes w: "ks_icache s ino = Some ei" "inode_place s ino = Some (b, r)" "ks_dev s b = Some m"
  shows "inode_place s' = inode_place s" "ks_arch s' = ks_arch s" "ks_oom s' = ks_oom s"
    "ks_sbi s' = ks_sbi s" "ks_slab s' = ks_slab s" "ks_now s' = ks_now s" "ks_gps s' = ks_gps s"
    "ks_dev s' = (ks_dev s)(b \<mapsto> raw_inode_store (ks_arch s) (test_opt s MOUNT_NO_UID32)
          (s_inode_size (ks_sbi s)) (ext2_get_inode_flags ei) r m)"
    "ks_icache s' = (ks_icache s)(ino \<mapsto>
       (ext2_get_inode_flags ei)\<lparr>ei_state := ei_state ei AND NOT EXT2_STATE_NEW\<rparr>)"
proof -
  show "inode_place s' = inode_place s"
    unfolding s'_def ext2_write_inode_result [OF w]
    by (rule inode_place_cong) (auto simp: Let_def w(3))
qed (simp_all add: s'_def ext2_write_inode_result [OF w] Let_def)

lemma uncache_keeps [simp]:
  "ks_sbi (uncache i s) = ks_sbi s" "ks_dev (uncache i s) = ks_dev s" "ks_arch (uncache i s) = ks_arch s"
  "ks_slab (uncache i s) = ks_slab s" "ks_oom (uncache i s) = ks_oom s" "ks_now (uncache i s) = ks_now s"
  "ks_gps (uncache i s) = ks_gps s" "ks_icache (uncache i s) = (ks_icache s)(i := None)"
  by (simp_all add: uncache_def)

lemma inode_place_uncache [simp]: "inode_place (uncache ino s) = inode_place s"
  by (rule inode_place_cong) (simp_all add: uncache_def)

lemma test_opt_cong: "ks_sbi s' = ks_sbi s \<Longrightarrow> test_opt s' = test_opt s"
  by (simp add: fun_eq_iff test_opt_def)

lemma ext2_get_inode_state: "ext2_get_inode ino s = (x, s') \<Longrightarrow> s' = s \<or> s' = ext2_error s"
  by (cases "inode_place s ino") (auto simp: ext2_get_inode_place dest: ext2_get_inode_no_place [of s ino])

lemma iget_locked_state: "iget_locked ino s = (x, s') \<Longrightarrow> s' = s \<or> (\<exists>ei. s' = put_inode ino ei s)"
  by (auto simp: iget_locked_def Let_def split: option.splits)

lemma iget_failed_keeps [simp]:
  "ks_now (iget_failed ino s) = ks_now s" "ks_gps (iget_failed ino s) = ks_gps s"
  "ks_arch (iget_failed ino s) = ks_arch s" "ks_dev (iget_failed ino s) = ks_dev s"
  "ks_gdesc (iget_failed ino s) = ks_gdesc s" "ks_oom (iget_failed ino s) = ks_oom s"
  by (simp_all add: iget_failed_def)

lemma ext2_iget_state:
  assumes "ext2_iget ino s = (x, s')"
  obtains t where "t = s \<or> t = ext2_error s \<or> (\<exists>ei. t = put_inode ino ei s \<or> t = ext2_error (put_inode ino ei s))"
    "s' = t \<or> s' = iget_failed ino t \<or> (\<exists>ei. s' = put_inode ino ei t)"
  using assms iget_locked_state [of ino s]
  by (auto simp: ext2_iget_def Let_def dest!: ext2_get_inode_state
      split: if_splits option.splits prod.splits sum.splits)

lemma ext2_iget_keeps:
  assumes "ext2_iget ino s = (x, s')"
  shows "ks_now s' = ks_now s" "ks_gps s' = ks_gps s" "ks_arch s' = ks_arch s" "ks_dev s' = ks_dev s"
    "ks_gdesc s' = ks_gdesc s" "ks_oom s' = ks_oom s"
  using assms by (auto elim!: ext2_iget_state)

lemma write_inode_iget_same:
  assumes "ks_icache s ino = Some ei" and "inode_storable ei" and "inode_place s ino = Some (b, r)"
    and "\<not> test_opt s MOUNT_NO_UID32" and "\<not> ks_oom s"
    and "ext2_write_inode ino do_sync False s = (err, s')"
  shows "err = 0 \<and> (\<exists>ei' s''. ext2_iget ino (uncache ino s') = (Inr ino, s'') \<and>
     ks_icache s'' ino = Some ei' \<and> same_persistent ei ei')"
proof -
  obtain m where m: "ks_dev s b = Some m" using inode_place_dev [OF assms(3)] by blast
  note st = ext2_write_inode_state [OF assms(1,3) m, of do_sync]
  let ?m = "raw_inode_store (ks_arch s) False (s_inode_size (ks_sbi s)) (ext2_get_inode_flags ei) r m"
  have s': "s' = snd (ext2_write_inode ino do_sync False s)" and err: "err = 0"
    using assms(6) ext2_write_inode_result [OF assms(1,3) m] by simp_all
  have len: "length (i_data (ext2_get_inode_flags ei)) = 15" and nl: "unat (i_nlink (vfs_inode ei)) < 2 ^ LENGTH(16)"
    and nz: "i_nlink (vfs_inode ei) \<noteq> 0"
    using assms(2) by (simp_all add: inode_storable_def)
  have "le_load (ks_arch s) ?m (r + 26) \<noteq> (0 :: u16)"
    using raw_inode_store_loads(2) [OF len] ucast_ucast_small [OF nl] nz by auto
  then have "ext2_iget ino (uncache ino s') =
      (Inr ino, put_inode ino (iget_new ino (uncache ino s') ?m r) (uncache ino s'))"
    using assms(3,4,5) st by (intro ext2_iget_fresh) (auto simp: s')
  moreover have "same_persistent ei (iget_new ino (uncache ino s') ?m r)"
    using raw_inode_store_same_persistent [OF assms(2), of "uncache ino s'" ino] assms(4) st
    by (simp add: s' test_opt_def)
  ultimately show ?thesis using err by auto
qed

section \<open>Properties\<close>


definition sample_file :: ext2_inode_info where
  "sample_file = sample_ei\<lparr>vfs_inode := sample_inode\<lparr>i_ino := 12, i_mode := S_IFREG OR 0x1A4, i_uid := 70000,
     i_size := 0x123456789, i_op := ext2_file_inode_operations, i_count := 1\<rparr>\<rparr>"

lemma sample_place: "inode_place (sample_fs A) 12 = Some (7, 768)"
  by (simp add: inode_place_def lookup_group_desc_def group_desc_index_def group_desc_offset_def sample_defs
      drop_bit_eq_div)

lemma sample_file_storable: "inode_storable sample_file"
  by (simp add: inode_storable_def sample_file_def sample_defs S_ISREG_def)


text \<open>
  C22: the structure written for an inode is 152 bytes long. On a file system with the 128-byte
  inodes that the mount code accepts, writing inode \<open>ino\<close> therefore replaces the mode of inode
  \<open>ino + 1\<close> by the low bits of the latitude of \<open>ino\<close>, when both are in the same block of the inode table.
\<close>

theorem write_inode_clobbers_next_inode:
  assumes "s_inode_size (ks_sbi s) = 128"
    and "ks_icache s ino = Some ei" and "length (i_data ei) = 15"
    and "inode_place s ino = Some (b, r)" and "inode_place s (ino + 1) = Some (b, r + 128)"
    and "\<not> test_opt s MOUNT_NO_UID32"
    and "ext2_write_inode ino do_sync False s = (err, s')"
  shows "\<exists>m. inode_place s' (ino + 1) = Some (b, r + 128) \<and> ks_dev s' b = Some m \<and>
     le_load (ks_arch s') m (r + 128) = (ucast (d_latitude (i_gps ei)) :: u16)"
proof -
  obtain m where m: "ks_dev s b = Some m" using inode_place_dev [OF assms(4)] by blast
  note st = ext2_write_inode_state [OF assms(2,4) m, of do_sync]
  have s': "s' = snd (ext2_write_inode ino do_sync False s)" using assms(7) by simp
  show ?thesis
    using assms raw_inode_store_next_mode [of "ext2_get_inode_flags ei" "ks_arch s" 128 r m]
    by (simp add: s' st)
qed

theorem write_inode_clobbers_next_inode_witness:
  "\<exists>err s' m. ext2_write_inode 12 False False
       (put_inode 12 (sample_file\<lparr>i_gps := \<lparr>d_latitude = 0xABCD, d_longitude = 0, d_accuracy = 0, d_age = 0\<rparr>\<rparr>)
          ((sample_fs LittleEndian)\<lparr>ks_sbi := sample_sbi\<lparr>s_inode_size := 128\<rparr>\<rparr>)) = (err, s') \<and>
     inode_place s' 13 = Some (6, 512) \<and> ks_dev s' 6 = Some m \<and> le_load (ks_arch s') m 512 = (0xABCD :: u16)"
proof -
  let ?e = "sample_file\<lparr>i_gps := \<lparr>d_latitude = 0xABCD, d_longitude = 0, d_accuracy = 0, d_age = 0\<rparr>\<rparr>"
  let ?t = "(sample_fs LittleEndian)\<lparr>ks_sbi := sample_sbi\<lparr>s_inode_size := 128\<rparr>\<rparr>"
  let ?s = "put_inode 12 ?e ?t"
  obtain err s' where w: "ext2_write_inode 12 False False ?s = (err, s')" by fastforce
  have "inode_place ?t 12 = Some (6, 384)" "inode_place ?t 13 = Some (6, 512)"
    by (simp_all add: inode_place_def lookup_group_desc_def group_desc_index_def group_desc_offset_def
        sample_defs drop_bit_eq_div)
  moreover have "\<not> test_opt ?s MOUNT_NO_UID32" "length (i_data ?e) = 15"
    by (simp_all add: test_opt_def has_flag_def sample_file_def sample_defs)
  ultimately show ?thesis
    using write_inode_clobbers_next_inode [OF _ _ _ _ _ _ w, of ?e 6 384] w by simp
qed

end
