(* ===== verification/Ext2_Gps.thy ===== *)
theory Ext2_Gps
  imports Ext2_Inode
begin

text \<open>
  Tagging an inode with the current location and reading the tag back: \<open>ext2_set_gps\<close> and
  \<open>ext2_get_gps\<close> of \<open>fs/ext2/namei.c\<close>, the generic \<open>vfs_set_gps\<close> and \<open>vfs_get_gps\<close> of \<open>fs/namei.c\<close>
  and the writes of \<open>fs/read_write.c\<close> that call them.
\<close>

section \<open>Operations\<close>

text \<open>
  What \<open>ext2_set_gps\<close> does to the in-core inode, under its \<open>i_gps_lock\<close>. The stored age is the
  second the kernel location was set, converted with \<open>cpu_to_le32\<close>; the inode is marked dirty only
  if it is dirty already.
\<close>

definition set_gps_ei :: "arch \<Rightarrow> kernel_gps \<Rightarrow> ext2_inode_info \<Rightarrow> ext2_inode_info" where
  "set_gps_ei A k_gps ei =
     (let ei1 = ei\<lparr>i_gps_lock := (i_gps_lock ei)\<lparr>wr_held := True\<rparr>\<rparr>;
          ei2 = ei1\<lparr>i_gps := \<lparr>d_latitude = latitude (loc k_gps), d_longitude = longitude (loc k_gps),
                             d_accuracy = accuracy (loc k_gps),
                             d_age = cpu_to_le A (tv_sec (timestamp k_gps))\<rparr>\<rparr>;
          ei3 = (if has_flag (i_state_vfs (vfs_inode ei2)) I_DIRTY then mark_inode_dirty ei2 else ei2) in
      ei3\<lparr>i_gps_lock := (i_gps_lock ei3)\<lparr>wr_held := False\<rparr>\<rparr>)"

definition ext2_set_gps :: "nat \<Rightarrow> kstate \<Rightarrow> int \<times> kstate" where
  "ext2_set_gps ino s =
     (case ks_icache s ino of
        None \<Rightarrow> (- EINVAL, s)
      | Some ei \<Rightarrow>
          (let (k_gps, g) = get_current_location (ks_gps s) in
           (0, put_inode ino (set_gps_ei (ks_arch s) k_gps ei) (s\<lparr>ks_gps := g\<rparr>))))"

text \<open>
  \<open>ext2_get_gps\<close> takes a second reference to the inode with \<open>ext2_iget\<close> and never drops it. The
  result of \<open>ext2_iget\<close> is used unchecked: an error is a wild pointer, None in the model. The value
  returned is the difference of the clock and the stored second as a signed 32-bit number.
\<close>

definition gps_of_disk :: "gps_on_disk \<Rightarrow> gps_location" where
  "gps_of_disk g = \<lparr>latitude = d_latitude g, longitude = d_longitude g, accuracy = d_accuracy g\<rparr>"

definition ext2_get_gps :: "nat \<Rightarrow> kstate \<Rightarrow> (int \<times> gps_location) option \<times> kstate" where
  "ext2_get_gps ino s =
     (case ext2_iget ino s of
        (Inl _, s1) \<Rightarrow> (None, s1)
      | (Inr k, s1) \<Rightarrow>
          (case ks_icache s1 k of
             None \<Rightarrow> (None, s1)
           | Some ei \<Rightarrow> (Some (sint (get_seconds s1 - d_age (i_gps ei)), gps_of_disk (i_gps ei)), s1)))"

text \<open>Which inode operations have \<open>set_gps_location\<close> and \<open>get_gps_location\<close>.\<close>

fun iop_has_gps :: "inode_ops \<Rightarrow> bool" where
  "iop_has_gps ext2_file_inode_operations = True"
| "iop_has_gps ext2_dir_inode_operations = True"
| "iop_has_gps ext2_special_inode_operations = True"
| "iop_has_gps ext2_fast_symlink_inode_operations = False"
| "iop_has_gps ext2_symlink_inode_operations = False"
| "iop_has_gps empty_iops = False"

definition vfs_get_gps :: "nat option \<Rightarrow> kstate \<Rightarrow> (int \<times> gps_location) option \<times> kstate" where
  "vfs_get_gps p s =
     (case p of
        None \<Rightarrow> (Some (- EINVAL, zero_location), s)
      | Some ino \<Rightarrow>
          (case ks_icache s ino of
             None \<Rightarrow> (None, s)
           | Some ei \<Rightarrow>
               if iop_has_gps (i_op (vfs_inode ei)) then ext2_get_gps ino s
               else (Some (- ENOENT, zero_location), s)))"

definition vfs_set_gps :: "nat option \<Rightarrow> kstate \<Rightarrow> int \<times> kstate" where
  "vfs_set_gps p s =
     (case p of
        None \<Rightarrow> (- EINVAL, s)
      | Some ino \<Rightarrow>
          (case ks_icache s ino of
             None \<Rightarrow> (- EINVAL, s)
           | Some ei \<Rightarrow>
               if iop_has_gps (i_op (vfs_inode ei)) then ext2_set_gps ino s else (- ENOENT, s)))"

text \<open>
  \<open>vfs_write\<close> and \<open>vfs_writev\<close>. The checks of the file, of the user buffer and of the file area, and
  the write of the file system itself, are arguments.
\<close>

record write_call =
  wc_fmode_write :: bool
  wc_has_op :: bool
  wc_access_ok :: bool
  wc_verify :: int
  wc_write :: "kstate \<Rightarrow> int \<times> kstate"

definition vfs_write :: "write_call \<Rightarrow> nat \<Rightarrow> kstate \<Rightarrow> int \<times> kstate" where
  "vfs_write c ino s =
     (if \<not> wc_fmode_write c then (- EBADF, s)
      else if \<not> wc_has_op c then (- EINVAL, s)
      else if \<not> wc_access_ok c then (- EFAULT, s)
      else if wc_verify c \<ge> 0 then
        (let (ret, s1) = wc_write c s in
         if ret > 0 then (ret, snd (vfs_set_gps (Some ino) s1)) else (ret, s1))
      else (wc_verify c, s))"

definition vfs_writev :: "write_call \<Rightarrow> nat \<Rightarrow> kstate \<Rightarrow> int \<times> kstate" where
  "vfs_writev c ino s =
     (if \<not> wc_fmode_write c then (- EBADF, s)
      else if \<not> wc_has_op c then (- EINVAL, s)
      else
        (let (ret, s1) = wc_write c s in
         if ret > 0 then (ret, snd (vfs_set_gps (Some ino) s1)) else (ret, s1)))"

section \<open>Facts\<close>

lemma set_gps_ei_gps [simp]:
  "i_gps (set_gps_ei A k ei) =
     \<lparr>d_latitude = latitude (loc k), d_longitude = longitude (loc k), d_accuracy = accuracy (loc k),
      d_age = cpu_to_le A (tv_sec (timestamp k))\<rparr>"
  by (simp add: set_gps_ei_def Let_def mark_inode_dirty_def)

lemma set_gps_ei_keeps [simp]:
  fixes A k ei
  defines "ei' \<equiv> set_gps_ei A k ei"
  shows "i_data ei' = i_data ei" "i_dtime ei' = i_dtime ei" "i_flags ei' = i_flags ei"
    "i_file_acl ei' = i_file_acl ei" "i_block_alloc_info ei' = i_block_alloc_info ei"
    "i_block_group ei' = i_block_group ei" "i_dir_start_lookup ei' = i_dir_start_lookup ei"
    "i_mode (vfs_inode ei') = i_mode (vfs_inode ei)" "i_nlink (vfs_inode ei') = i_nlink (vfs_inode ei)"
    "i_size (vfs_inode ei') = i_size (vfs_inode ei)" "i_blocks (vfs_inode ei') = i_blocks (vfs_inode ei)"
    "i_op (vfs_inode ei') = i_op (vfs_inode ei)" "i_count (vfs_inode ei') = i_count (vfs_inode ei)"
    "i_ino (vfs_inode ei') = i_ino (vfs_inode ei)"
    "i_flags_vfs (vfs_inode ei') = i_flags_vfs (vfs_inode ei)"
  by (simp_all add: ei'_def set_gps_ei_def Let_def mark_inode_dirty_def)

lemma set_gps_ei_state:
  "i_state_vfs (vfs_inode (set_gps_ei A k ei)) =
     (if has_flag (i_state_vfs (vfs_inode ei)) I_DIRTY then i_state_vfs (vfs_inode ei) OR I_DIRTY
      else i_state_vfs (vfs_inode ei))"
  by (simp add: set_gps_ei_def Let_def mark_inode_dirty_def)

lemma inode_storable_set_gps [simp]: "inode_storable (set_gps_ei A k ei) = inode_storable ei"
  by (simp add: inode_storable_def)

lemma ext2_set_gps_Some:
  "ks_icache s ino = Some ei \<Longrightarrow>
     ext2_set_gps ino s = (0, put_inode ino (set_gps_ei (ks_arch s) (cur_gps (ks_gps s)) ei) s)"
  by (simp add: ext2_set_gps_def put_inode_def)

text \<open>Every inode operation outside the cached inode itself is untouched by the tag.\<close>

lemma ext2_set_gps_keeps [simp]:
  fixes ino s
  defines "s' \<equiv> snd (ext2_set_gps ino s)"
  shows "ks_sbi s' = ks_sbi s" "ks_es s' = ks_es s" "ks_sb s' = ks_sb s" "ks_dev s' = ks_dev s"
    "ks_gdesc s' = ks_gdesc s" "ks_arch s' = ks_arch s" "ks_slab s' = ks_slab s" "ks_oom s' = ks_oom s"
    "ks_now s' = ks_now s" "ks_gps s' = ks_gps s" "ks_pages s' = ks_pages s" "ks_panic s' = ks_panic s" "ks_uptodate s' = ks_uptodate s"
    "k \<noteq> ino \<Longrightarrow> ks_icache s' k = ks_icache s k"
  by (simp_all add: s'_def ext2_set_gps_def split: option.splits)

lemma ext2_iget_cached:
  assumes "ks_icache s ino = Some ei" "\<not> has_flag (i_state_vfs (vfs_inode ei)) I_NEW"
  shows "ext2_iget ino s =
    (Inr ino, put_inode ino (upd_vfs (\<lambda>v. v\<lparr>i_count := i_count v + 1\<rparr>) ei) s)"
  using assms by (simp add: ext2_iget_def iget_locked_def Let_def upd_vfs_def)

lemma ext2_get_gps_cached:
  assumes "ks_icache s ino = Some ei" "\<not> has_flag (i_state_vfs (vfs_inode ei)) I_NEW"
  shows "ext2_get_gps ino s =
    (Some (sint (get_seconds s - d_age (i_gps ei)), gps_of_disk (i_gps ei)),
     put_inode ino (upd_vfs (\<lambda>v. v\<lparr>i_count := i_count v + 1\<rparr>) ei) s)"
  using assms by (simp add: ext2_get_gps_def ext2_iget_cached upd_vfs_def get_seconds_def)

lemma iget_set_ops_has_gps:
  "iop_has_gps (i_op (vfs_inode (iget_set_ops s m r ei))) \<longleftrightarrow> \<not> S_ISLNK (i_mode (vfs_inode ei))"
  using S_IS_exclusive [of "i_mode (vfs_inode ei)"]
  by (auto simp: iget_set_ops_def Let_def upd_vfs_def)

lemma iget_new_has_gps:
  "iop_has_gps (i_op (vfs_inode (iget_new ino s m r))) \<longleftrightarrow> \<not> S_ISLNK (i_mode (vfs_inode (iget_new ino s m r)))"
  by (simp add: iget_new_def Let_def iget_set_ops_has_gps)

lemma iget_new_not_new: "\<not> has_flag (i_state_vfs (vfs_inode (iget_new ino s m r))) I_NEW"
  by (simp add: iget_new_def Let_def unlock_new_inode_def upd_vfs_def has_flag_def and.assoc)

end
