(* ===== verification/Gps_Syscall.thy ===== *)
theory Gps_Syscall
  imports Ext2_Gps
begin

text \<open>
  The system call \<open>get_gps_location\<close> of \<open>kernel/gps.c\<close>, on top of the file system. Opening and
  accessing a path and resolving it (\<open>sys_open\<close>, \<open>sys_access\<close>, \<open>kern_path\<close>) belong to the VFS and are
  arguments. The handler passes the user's path pointer itself to the permission checks, which read
  the string from user memory again each time, so the strings they see are separate arguments.
\<close>

section \<open>The call's environment\<close>

text \<open>What \<open>kern_path\<close> finds: nothing, a negative dentry, an inode of another file system type, or
  an inode of ext2.\<close>

datatype lookup = Lookup_error | Negative_dentry | Other_fs | On_ext2 nat

record path_env =
  pe_open_dir :: "string \<Rightarrow> int"
  pe_access_read :: "string \<Rightarrow> int"
  pe_kern_path :: "string \<Rightarrow> lookup"

datatype strncpy_outcome = Str_fault | Str_too_long | Str_copied string

record get_args =
  ga_path_null :: bool
  ga_loc_null :: bool
  ga_copied :: strncpy_outcome
  ga_seen_isdir :: string
  ga_seen_open :: string
  ga_seen_access :: string
  ga_copy_out_ok :: bool

text \<open>
  The state of a call: the file system, the references to paths it holds, the path buffers it has
  allocated, and what was copied out to the user.
\<close>

record call_state =
  cs_fs :: kstate
  cs_path_refs :: int
  cs_bufs :: int
  cs_out :: "gps_location option"

section \<open>Operations\<close>

definition is_directory :: "path_env \<Rightarrow> string \<Rightarrow> bool" where
  "is_directory e p \<longleftrightarrow> \<not> pe_open_dir e p < 0"

definition can_access_file :: "path_env \<Rightarrow> get_args \<Rightarrow> bool" where
  "can_access_file e a =
     (let ret = (if is_directory e (ga_seen_isdir a)
                 then (if pe_open_dir e (ga_seen_open a) < 0 then pe_open_dir e (ga_seen_open a) else 0)
                 else pe_access_read e (ga_seen_access a)) in
      ret = 0)"

fun gps_supported :: "lookup \<Rightarrow> bool" where
  "gps_supported (On_ext2 _) = True"
| "gps_supported _ = False"

text \<open>The result None is a kernel fault in \<open>ext2_get_gps\<close>.\<close>

definition get_file_gps_location ::
  "path_env \<Rightarrow> string \<Rightarrow> call_state \<Rightarrow> (int \<times> gps_location) option \<times> call_state" where
  "get_file_gps_location e kfile c =
     (if pe_kern_path e kfile = Lookup_error then (Some (- EAGAIN, zero_location), c)
      else
        let c1 = c\<lparr>cs_path_refs := cs_path_refs c + 1\<rparr> in
        if pe_kern_path e kfile = Negative_dentry then (Some (- EINVAL, zero_location), c1)
        else if \<not> gps_supported (pe_kern_path e kfile) then (Some (- ENODEV, zero_location), c1)
        else case pe_kern_path e kfile of
          On_ext2 ino \<Rightarrow>
            (let (r, f) = vfs_get_gps (Some ino) (cs_fs c1) in
             (r, c1\<lparr>cs_fs := f, cs_path_refs := cs_path_refs c1 - 1\<rparr>))
        | _ \<Rightarrow> (None, c1))"

definition kfree_path :: "call_state \<Rightarrow> call_state" where
  "kfree_path c = c\<lparr>cs_bufs := cs_bufs c - 1\<rparr>"

definition sys_get_gps_location :: "path_env \<Rightarrow> get_args \<Rightarrow> call_state \<Rightarrow> int option \<times> call_state" where
  "sys_get_gps_location e a c =
     (if ga_path_null a \<or> ga_loc_null a then (Some (- EINVAL), c)
      else if ks_oom (cs_fs c) then (Some (- ENOMEM), c)
      else
        let c1 = c\<lparr>cs_bufs := cs_bufs c + 1\<rparr> in
        case ga_copied a of
          Str_fault \<Rightarrow> (Some (- EFAULT), kfree_path c1)
        | Str_too_long \<Rightarrow> (Some (- ENAMETOOLONG), kfree_path c1)
        | Str_copied kpathname \<Rightarrow>
            if \<not> can_access_file e a then (Some (- EACCES), kfree_path c1)
            else case get_file_gps_location e kpathname c1 of
              (None, c2) \<Rightarrow> (None, c2)
            | (Some (ret, kloc), c2) \<Rightarrow>
                if ret < 0 then (Some (- EAGAIN), kfree_path c2)
                else if \<not> ga_copy_out_ok a then
                  (Some (- EFAULT),
                   kfree_path (c2\<lparr>cs_fs := (cs_fs c2)\<lparr>ks_gps := gps_read_unlock (ks_gps (cs_fs c2))\<rparr>\<rparr>))
                else (Some ret, kfree_path (c2\<lparr>cs_out := Some kloc\<rparr>)))"

section \<open>Facts\<close>

text \<open>A path buffer nobody changes during the call.\<close>

definition stable_path :: "string \<Rightarrow> get_args" where
  "stable_path p =
     \<lparr>ga_path_null = False, ga_loc_null = False, ga_copied = Str_copied p, ga_seen_isdir = p,
      ga_seen_open = p, ga_seen_access = p, ga_copy_out_ok = True\<rparr>"

definition readable :: "path_env \<Rightarrow> string \<Rightarrow> bool" where
  "readable e p \<longleftrightarrow> \<not> pe_open_dir e p < 0 \<or> pe_access_read e p = 0"

lemma can_access_stable [simp]: "can_access_file e (stable_path p) = readable e p"
  by (auto simp: can_access_file_def is_directory_def stable_path_def readable_def Let_def)

lemma stable_path_simps [simp]:
  "\<not> ga_path_null (stable_path p)" "\<not> ga_loc_null (stable_path p)"
  "ga_copied (stable_path p) = Str_copied p" "ga_copy_out_ok (stable_path p)"
  by (simp_all add: stable_path_def)

lemma get_file_gps_location_ext2:
  assumes "pe_kern_path e p = On_ext2 ino" "ks_icache (cs_fs c) ino = Some ei"
    "iop_has_gps (i_op (vfs_inode ei))" "\<not> has_flag (i_state_vfs (vfs_inode ei)) I_NEW"
  shows "get_file_gps_location e p c =
    (Some (sint (get_seconds (cs_fs c) - d_age (i_gps ei)), gps_of_disk (i_gps ei)),
     c\<lparr>cs_fs := put_inode ino (upd_vfs (\<lambda>v. v\<lparr>i_count := i_count v + 1\<rparr>) ei) (cs_fs c)\<rparr>)"
  using assms by (simp add: get_file_gps_location_def vfs_get_gps_def ext2_get_gps_cached)

text \<open>A call that succeeds: what it returns, what it copies out, what it leaves behind.\<close>

lemma sys_get_gps_location_ext2:
  assumes "pe_kern_path e p = On_ext2 ino" "ks_icache (cs_fs c) ino = Some ei"
    "iop_has_gps (i_op (vfs_inode ei))" "\<not> has_flag (i_state_vfs (vfs_inode ei)) I_NEW"
    "readable e p" "\<not> ks_oom (cs_fs c)" "0 \<le> sint (get_seconds (cs_fs c) - d_age (i_gps ei))"
  shows "sys_get_gps_location e (stable_path p) c =
    (Some (sint (get_seconds (cs_fs c) - d_age (i_gps ei))),
     c\<lparr>cs_fs := put_inode ino (upd_vfs (\<lambda>v. v\<lparr>i_count := i_count v + 1\<rparr>) ei) (cs_fs c),
       cs_out := Some (gps_of_disk (i_gps ei))\<rparr>)"
proof -
  let ?c = "c\<lparr>cs_bufs := cs_bufs c + 1\<rparr>"
  have g: "get_file_gps_location e p ?c =
    (Some (sint (get_seconds (cs_fs ?c) - d_age (i_gps ei)), gps_of_disk (i_gps ei)),
     ?c\<lparr>cs_fs := put_inode ino (upd_vfs (\<lambda>v. v\<lparr>i_count := i_count v + 1\<rparr>) ei) (cs_fs ?c)\<rparr>)"
    using assms by (intro get_file_gps_location_ext2) simp_all
  show ?thesis
    using assms(5-7) by (simp add: sys_get_gps_location_def Let_def g kfree_path_def)
qed

section \<open>Properties\<close>


definition sample_gps :: gps_location where
  "sample_gps = \<lparr>latitude = 0x40446B851EB851EC, longitude = 0xC0527D70A3D70A3D, accuracy = 0x41A00000\<rparr>"

definition sample_env :: path_env where
  "sample_env = \<lparr>pe_open_dir = (\<lambda>_. - ENOENT), pe_access_read = (\<lambda>p. if p = ''/f'' then 0 else - EACCES),
     pe_kern_path = (\<lambda>p. if p = ''/f'' then On_ext2 12 else if p = ''/secret'' then On_ext2 13 else Lookup_error)\<rparr>"

definition sample_write :: write_call where
  "sample_write = \<lparr>wc_fmode_write = True, wc_has_op = True, wc_access_ok = True, wc_verify = 5,
     wc_write = (\<lambda>s. (5, s))\<rparr>"

definition sample_call :: "kstate \<Rightarrow> call_state" where
  "sample_call s = \<lparr>cs_fs = s, cs_path_refs = 0, cs_bufs = 0, cs_out = None\<rparr>"

lemma sample_file_facts:
  "iop_has_gps (i_op (vfs_inode sample_file))" "\<not> has_flag (i_state_vfs (vfs_inode sample_file)) I_NEW"
  by (simp_all add: sample_file_def sample_defs has_flag_def)




text \<open>
  C17: with a path buffer that does not change during the call, a location is copied out only for a
  path the process can open as a directory or read as a file, and it is the location of the inode
  that path resolves to; every other outcome copies nothing out.
\<close>

theorem get_gps_location_checks_access:
  assumes "sys_get_gps_location e (stable_path p) c = (ret, c')" and "cs_out c = None"
  shows "cs_out c' = None \<or>
     (\<exists>ino age l. readable e p \<and> pe_kern_path e p = On_ext2 ino \<and> 0 \<le> age \<and> ret = Some age \<and>
        fst (vfs_get_gps (Some ino) (cs_fs c)) = Some (age, l) \<and> cs_out c' = Some l)"
proof (cases "readable e p \<and> \<not> ks_oom (cs_fs c)")
  case False
  then show ?thesis
    using assms by (auto simp: sys_get_gps_location_def kfree_path_def Let_def split: if_splits)
next
  case True
  let ?c = "c\<lparr>cs_bufs := cs_bufs c + 1\<rparr>"
  obtain g c2 where g: "get_file_gps_location e p ?c = (g, c2)" by fastforce
  have out: "cs_out c2 = None"
    using g assms(2) by (auto simp: get_file_gps_location_def Let_def split: if_splits lookup.splits prod.splits)
  show ?thesis
  proof (cases g)
    case None
    then show ?thesis
      using assms(1) g out True by (simp add: sys_get_gps_location_def Let_def)
  next
    case (Some a)
    obtain age l where a: "a = (age, l)" by fastforce
    show ?thesis
    proof (cases "age < 0")
      case True
      then show ?thesis
        using assms(1) g out Some a \<open>readable e p \<and> \<not> ks_oom (cs_fs c)\<close>
        by (auto simp: sys_get_gps_location_def Let_def kfree_path_def)
    next
      case False
      with g Some a obtain ino where "pe_kern_path e p = On_ext2 ino"
        "fst (vfs_get_gps (Some ino) (cs_fs c)) = Some (age, l)"
        by (auto simp: get_file_gps_location_def Let_def split: if_splits lookup.splits prod.splits)
      then show ?thesis
        using assms(1) g out Some a False True
        by (auto simp: sys_get_gps_location_def Let_def kfree_path_def)
    qed
  qed
qed

theorem get_gps_location_checks_access_witness:
  "cs_out (snd (sys_get_gps_location sample_env (stable_path ''/secret'') (sample_call (sample_fs LittleEndian)))) = None"
  using get_gps_location_checks_access [OF surjective_pairing, where e = sample_env and p = "''/secret''" and c = "sample_call (sample_fs LittleEndian)"]
  by (simp add: sample_env_def sample_call_def readable_def)

text \<open>
  C23: the permission check reads the path from user memory, the lookup uses the copy made before it.
  A process that exchanges the path in its buffer in between is given the location of a file it can
  neither read nor open.
\<close>

theorem get_gps_location_check_bypassed:
  assumes "readable e q" and "pe_kern_path e p = On_ext2 ino" and "ks_icache (cs_fs c) ino = Some ei"
    and "iop_has_gps (i_op (vfs_inode ei))" and "\<not> has_flag (i_state_vfs (vfs_inode ei)) I_NEW"
    and "\<not> ks_oom (cs_fs c)" and "0 \<le> sint (get_seconds (cs_fs c) - d_age (i_gps ei))"
  shows "\<exists>a c'. ga_copied a = Str_copied p \<and> sys_get_gps_location e a c =
      (Some (sint (get_seconds (cs_fs c) - d_age (i_gps ei))), c') \<and> cs_out c' = Some (gps_of_disk (i_gps ei))"
proof -
  let ?a = "(stable_path q)\<lparr>ga_copied := Str_copied p\<rparr>"
  let ?c = "c\<lparr>cs_bufs := cs_bufs c + 1\<rparr>"
  have "can_access_file e ?a"
    using assms(1) by (auto simp: can_access_file_def is_directory_def stable_path_def readable_def Let_def)
  moreover have "get_file_gps_location e p ?c =
    (Some (sint (get_seconds (cs_fs ?c) - d_age (i_gps ei)), gps_of_disk (i_gps ei)),
     ?c\<lparr>cs_fs := put_inode ino (upd_vfs (\<lambda>v. v\<lparr>i_count := i_count v + 1\<rparr>) ei) (cs_fs ?c)\<rparr>)"
    using assms(2-5) by (intro get_file_gps_location_ext2) simp_all
  ultimately have "fst (sys_get_gps_location e ?a c) = Some (sint (get_seconds (cs_fs c) - d_age (i_gps ei))) \<and>
      cs_out (snd (sys_get_gps_location e ?a c)) = Some (gps_of_disk (i_gps ei))"
    using assms(6,7) by (simp add: sys_get_gps_location_def Let_def kfree_path_def stable_path_def)
  then show ?thesis by (intro exI [of _ ?a] exI [of _ "snd (sys_get_gps_location e ?a c)"]) (simp add: prod_eq_iff)
qed

theorem get_gps_location_check_bypassed_witness:
  "\<not> readable sample_env ''/secret'' \<and>
   (\<exists>a c'. ga_copied a = Str_copied ''/secret'' \<and>
      sys_get_gps_location sample_env a (sample_call (put_inode 13 sample_file (sample_fs LittleEndian))) = (Some 1000, c') \<and>
      cs_out c' = Some zero_location)"
proof -
  let ?c = "sample_call (put_inode 13 sample_file (sample_fs LittleEndian))"
  have "\<not> readable sample_env ''/secret''" by (simp add: readable_def sample_env_def)
  moreover have age: "sint (get_seconds (cs_fs ?c) - d_age (i_gps sample_file)) = 1000"
    and z: "gps_of_disk (i_gps sample_file) = zero_location"
    by (simp_all add: get_seconds_def sample_call_def sample_file_def sample_defs gps_of_disk_def zero_location_def)
  moreover have "\<exists>a c'. ga_copied a = Str_copied ''/secret'' \<and> sys_get_gps_location sample_env a ?c =
      (Some (sint (get_seconds (cs_fs ?c) - d_age (i_gps sample_file))), c') \<and> cs_out c' = Some (gps_of_disk (i_gps sample_file))"
    by (rule get_gps_location_check_bypassed [of _ "''/f''" _ 13])
      (use age sample_file_facts in \<open>simp_all add: readable_def sample_env_def sample_call_def sample_defs\<close>)
  ultimately show ?thesis by metis
qed

text \<open>
  C18: what a call leaves behind. Every path buffer is freed. The reader count of the kernel's GPS
  lock is what it was, except that a failed copy to the user drops a read lock the call never took.
  The path is released, except when it resolves to a negative dentry or to another file system.
\<close>

theorem get_gps_location_resources:
  assumes "sys_get_gps_location e a c = (Some ret, c')"
  shows "cs_bufs c' = cs_bufs c \<and>
    rd_count (gps_lock (ks_gps (cs_fs c'))) =
      rd_count (gps_lock (ks_gps (cs_fs c))) - (if ret = - EFAULT \<and> ga_copied a \<noteq> Str_fault then 1 else 0) \<and>
    cs_path_refs c' = cs_path_refs c +
      (if ret = - EAGAIN \<and> (\<exists>k. ga_copied a = Str_copied k \<and> pe_kern_path e k \<in> {Negative_dentry, Other_fs}) then 1 else 0)"
proof -
  have gps: "vfs_get_gps p s = (x, s') \<Longrightarrow> ks_gps s' = ks_gps s" for p s x s'
    by (auto simp: vfs_get_gps_def ext2_get_gps_def dest: ext2_iget_keeps(2)
        split: option.splits prod.splits sum.splits if_splits)
  have fl: "cs_bufs c2 = cs_bufs c1 \<and> ks_gps (cs_fs c2) = ks_gps (cs_fs c1) \<and>
      (pe_kern_path e k \<in> {Negative_dentry, Other_fs} \<longrightarrow> fst x < 0) \<and>
      cs_path_refs c2 = cs_path_refs c1 + (if pe_kern_path e k \<in> {Negative_dentry, Other_fs} then 1 else 0)"
    if "get_file_gps_location e k c1 = (Some x, c2)" for k x c1 c2
    using that
    by (cases "pe_kern_path e k") (auto simp: get_file_gps_location_def Let_def dest: gps split: prod.splits)
  show ?thesis
    using assms
    by (auto simp: sys_get_gps_location_def Let_def kfree_path_def gps_read_unlock_def dest!: fl
        split: if_splits strncpy_outcome.splits prod.splits option.splits)
qed

theorem get_gps_location_resources_witness:
  "\<exists>c'. sys_get_gps_location sample_env ((stable_path ''/f'')\<lparr>ga_copy_out_ok := False\<rparr>)
       (sample_call (put_inode 12 sample_file (sample_fs LittleEndian))) = (Some (- EFAULT), c') \<and>
     rd_count (gps_lock (ks_gps (cs_fs c'))) = - 1"
proof -
  let ?a = "(stable_path ''/f'')\<lparr>ga_copy_out_ok := False\<rparr>"
  let ?c = "sample_call (put_inode 12 sample_file (sample_fs LittleEndian))"
  have a: "ga_copied ?a = Str_copied ''/f''" "can_access_file sample_env ?a"
    by (simp_all add: stable_path_def can_access_file_def is_directory_def sample_env_def)
  have "get_file_gps_location sample_env ''/f'' (?c\<lparr>cs_bufs := cs_bufs ?c + 1\<rparr>) =
    (Some (1000, zero_location), (?c\<lparr>cs_bufs := cs_bufs ?c + 1\<rparr>)\<lparr>cs_fs :=
      put_inode 12 (upd_vfs (\<lambda>v. v\<lparr>i_count := i_count v + 1\<rparr>) sample_file) (cs_fs ?c)\<rparr>)"
    by (subst get_file_gps_location_ext2 [of _ _ 12 _ sample_file])
      (simp_all add: sample_file_facts, simp_all add: sample_env_def sample_call_def get_seconds_def
        sample_file_def sample_defs gps_of_disk_def zero_location_def)
  then have r: "fst (sys_get_gps_location sample_env ?a ?c) = Some (- EFAULT)"
    using a by (simp add: sys_get_gps_location_def Let_def stable_path_def) (simp add: sample_call_def sample_defs)
  from get_gps_location_resources [of sample_env ?a ?c "- EFAULT" "snd (sys_get_gps_location sample_env ?a ?c)"] r a
  have "rd_count (gps_lock (ks_gps (cs_fs (snd (sys_get_gps_location sample_env ?a ?c))))) = - 1"
    by (simp add: prod_eq_iff) (simp add: sample_call_def sample_defs gps_boot_def)
  with r show ?thesis by (intro exI [of _ "snd (sys_get_gps_location sample_env ?a ?c)"]) (simp add: prod_eq_iff)
qed

text \<open>
  C27: the second a location was set is converted to little-endian when the inode is tagged and
  used unconverted when it is read. On a big-endian CPU the age returned for a file tagged in the
  same second is therefore wrong unless the four bytes of the clock read the same in either order.
\<close>

theorem gps_age_big_endian:
  assumes "ks_arch s = BigEndian" and "ks_icache s ino = Some ei"
    and "\<not> has_flag (i_state_vfs (vfs_inode ei)) I_NEW"
    and "timestamp (cur_gps (ks_gps s)) = ks_now s" and "ext2_set_gps ino s = (0, s')"
  shows "\<exists>l s''. ext2_get_gps ino s' =
      (Some (sint (tv_sec (ks_now s) - cpu_to_le BigEndian (tv_sec (ks_now s))), l), s'') \<and>
    (sint (tv_sec (ks_now s) - cpu_to_le BigEndian (tv_sec (ks_now s))) = 0 \<longleftrightarrow>
     rev (le_bytes (tv_sec (ks_now s))) = le_bytes (tv_sec (ks_now s)))"
proof -
  let ?t = "tv_sec (ks_now s)"
  let ?ei = "set_gps_ei BigEndian (cur_gps (ks_gps s)) ei"
  have s': "s' = put_inode ino ?ei s" using assms by (simp add: ext2_set_gps_Some)
  have "\<not> has_flag (i_state_vfs (vfs_inode ?ei)) I_NEW"
    using assms(3) by (simp add: set_gps_ei_state has_flag_def bit.conj_disj_distrib2)
  with ext2_get_gps_cached [of s' ino ?ei]
  have "\<exists>l s''. ext2_get_gps ino s' = (Some (sint (?t - cpu_to_le BigEndian ?t), l), s'')"
    by (simp add: s' get_seconds_def assms(4))
  moreover have "cpu_to_le BigEndian ?t = ?t \<longleftrightarrow> rev (le_bytes ?t) = le_bytes ?t"
    using le_bytes_of_le_bytes [of "rev (le_bytes ?t)", where 'a = 32] of_le_bytes_le_bytes [of ?t]
    by (auto simp: cpu_to_le_def mem_order_def)
  ultimately show ?thesis by (auto simp: signed_eq_0_iff)
qed

theorem gps_age_big_endian_witness:
  "\<exists>s' age l s''. ext2_set_gps 12 ((put_inode 12 sample_file (sample_fs BigEndian))
       \<lparr>ks_gps := gps_boot\<lparr>cur_gps := \<lparr>loc = sample_gps, timestamp = \<lparr>tv_sec = 1000, tv_nsec = 0\<rparr>\<rparr>\<rparr>\<rparr>) = (0, s') \<and>
     ext2_get_gps 12 s' = (Some (age, l), s'') \<and> age \<noteq> 0"
proof -
  let ?s = "(put_inode 12 sample_file (sample_fs BigEndian))
    \<lparr>ks_gps := gps_boot\<lparr>cur_gps := \<lparr>loc = sample_gps, timestamp = \<lparr>tv_sec = 1000, tv_nsec = 0\<rparr>\<rparr>\<rparr>\<rparr>"
  obtain s' where s': "ext2_set_gps 12 ?s = (0, s')" by (simp add: ext2_set_gps_def)
  have now: "tv_sec (ks_now ?s) = 1000" by (simp add: sample_defs)
  have "timestamp (cur_gps (ks_gps ?s)) = ks_now ?s" by (simp add: sample_defs)
  with gps_age_big_endian [of ?s 12 sample_file s', OF _ _ sample_file_facts(2) _ s']
  obtain l s'' where g: "ext2_get_gps 12 s' =
      (Some (sint (1000 - cpu_to_le BigEndian (1000 :: u32)), l), s'')"
    "sint (1000 - cpu_to_le BigEndian (1000 :: u32)) = 0 \<longleftrightarrow> rev (le_bytes (1000 :: u32)) = le_bytes (1000 :: u32)"
    unfolding now by (auto simp: sample_defs)
  have "rev (le_bytes (1000 :: u32)) \<noteq> le_bytes (1000 :: u32)"
    by (simp add: le_bytes_def upt_rec)
  with g s' show ?thesis by auto
qed

text \<open>
  C21: tagging an inode that is clean changes its in-core copy only and leaves it clean, so it is not
  written back: once it leaves the cache, the location read for it is the one on disk from before.
\<close>

theorem gps_update_of_clean_inode_lost:
  assumes "ks_icache s ino = Some ei" and "\<not> has_flag (i_state_vfs (vfs_inode ei)) I_DIRTY"
    and "inode_place s ino = Some (b, r)" and "ks_dev s b = Some m" and "\<not> ks_oom s"
    and "le_load (ks_arch s) m (r + 26) \<noteq> (0 :: u16)" and "ext2_set_gps ino s = (0, s')"
  shows "(\<exists>ei'. ks_icache s' ino = Some ei' \<and> \<not> has_flag (i_state_vfs (vfs_inode ei')) I_DIRTY) \<and>
    (\<exists>age s''. ext2_get_gps ino (uncache ino s') = (Some (age,
      \<lparr>latitude = le_load (ks_arch s) m (r + 128), longitude = le_load (ks_arch s) m (r + 136),
       accuracy = le_load (ks_arch s) m (r + 144)\<rparr>), s''))"
proof -
  have s': "s' = put_inode ino (set_gps_ei (ks_arch s) (cur_gps (ks_gps s)) ei) s"
    using assms(1,7) by (simp add: ext2_set_gps_Some)
  have "ext2_iget ino (uncache ino s') =
      (Inr ino, put_inode ino (iget_new ino (uncache ino s') m r) (uncache ino s'))"
    using assms(3-6) by (intro ext2_iget_fresh) (simp_all add: s')
  then show ?thesis
    using assms(2) by (simp add: ext2_get_gps_def iget_new_ext2_fields gps_of_disk_def s' set_gps_ei_state)
qed

theorem gps_update_of_clean_inode_lost_witness:
  "\<exists>s' age l s''. ext2_set_gps 12 ((put_inode 12 sample_file (sample_fs LittleEndian))
       \<lparr>ks_dev := (\<lambda>_. Some (\<lambda>_. 1))\<rparr>) = (0, s') \<and>
     ext2_get_gps 12 (uncache 12 s') = (Some (age, l), s'') \<and> latitude l = 0x0101010101010101"
proof -
  let ?s = "(put_inode 12 sample_file (sample_fs LittleEndian))\<lparr>ks_dev := (\<lambda>_. Some (\<lambda>_. 1))\<rparr>"
  obtain s' where s': "ext2_set_gps 12 ?s = (0, s')" by (simp add: ext2_set_gps_def)
  have "inode_place ?s 12 = inode_place (sample_fs LittleEndian) 12"
    by (rule arg_cong [OF inode_place_cong]) (simp_all add: sample_defs)
  moreover have "\<not> has_flag (i_state_vfs (vfs_inode sample_file)) I_DIRTY"
    by (simp add: sample_file_def sample_defs has_flag_def)
  moreover have ld: "le_load LittleEndian (\<lambda>_. 1) a = (0x0101 :: u16)"
    "le_load LittleEndian (\<lambda>_. 1) a = (0x0101010101010101 :: u64)" for a
    by (simp_all add: le_load_def load_word_def mem_order_def read_bytes_def upt_rec)
  moreover have "ks_arch ?s = LittleEndian" "\<not> ks_oom ?s" by (simp_all add: sample_defs)
  ultimately show ?thesis
    using gps_update_of_clean_inode_lost [of ?s 12 sample_file 7 768 "\<lambda>_. 1", OF _ _ _ _ _ _ s'] s'
    by (auto simp: sample_place)
qed

end
