(* ===== verification/Bitmap.thy ===== *)
theory Bitmap
  imports Ext2_Fs
begin

text \<open>
  Allocation bitmaps: the bit operations the file system uses on a bitmap block, the searches for a
  free bit and \<open>ext2_try_to_allocate\<close> of \<open>fs/ext2/balloc.c\<close>. Positions in a group are \<open>int\<close>, as
  \<open>ext2_grpblk_t\<close> is, since -1 stands for no goal and for failure.
\<close>

section \<open>Bits of a bitmap block\<close>

definition ext2_test_bit :: "mem \<Rightarrow> nat \<Rightarrow> bool" where
  "ext2_test_bit m n = bit (m (n div 8)) (n mod 8)"

definition ext2_set_bit :: "mem \<Rightarrow> nat \<Rightarrow> mem" where
  "ext2_set_bit m n = m(n div 8 := m (n div 8) OR push_bit (n mod 8) 1)"

definition ext2_clear_bit :: "mem \<Rightarrow> nat \<Rightarrow> mem" where
  "ext2_clear_bit m n = m(n div 8 := m (n div 8) AND NOT (push_bit (n mod 8) 1))"

definition ext2_find_next_zero_bit :: "mem \<Rightarrow> nat \<Rightarrow> nat \<Rightarrow> nat" where
  "ext2_find_next_zero_bit m sz offset =
     (case find (\<lambda>i. \<not> ext2_test_bit m i) [offset..<sz] of Some i \<Rightarrow> i | None \<Rightarrow> sz)"

text \<open>\<open>memscan (m + p) 0 n\<close>: the offset of the first zero byte, or the end.\<close>

definition memscan0 :: "mem \<Rightarrow> nat \<Rightarrow> nat \<Rightarrow> nat" where
  "memscan0 m p n = (case find (\<lambda>i. m i = 0) [p..<p + n] of Some i \<Rightarrow> i | None \<Rightarrow> p + n)"

section \<open>Searching\<close>

definition bitmap_search_next_usable_block :: "int \<Rightarrow> mem \<Rightarrow> int \<Rightarrow> int" where
  "bitmap_search_next_usable_block start m maxblocks =
     (let nx = int (ext2_find_next_zero_bit m (nat maxblocks) (nat start)) in
      if nx \<ge> maxblocks then - 1 else nx)"

definition find_near_goal :: "int \<Rightarrow> mem \<Rightarrow> int \<Rightarrow> int option" where
  "find_near_goal start m maxblocks =
     (if start > 0 then
        let end_goal0 = (start + 63) AND NOT 63;
            end_goal = (if end_goal0 > maxblocks then maxblocks else end_goal0);
            here = int (ext2_find_next_zero_bit m (nat end_goal) (nat start)) in
        if here < end_goal then Some here else None
      else None)"

definition find_next_usable_block :: "int \<Rightarrow> mem \<Rightarrow> int \<Rightarrow> int" where
  "find_next_usable_block start m maxblocks =
     (case find_near_goal start m maxblocks of
        Some here \<Rightarrow> here
      | None \<Rightarrow>
          (let here = (if start < 0 then 0 else start);
               p = nat (here div 8);
               r = memscan0 m p (nat ((maxblocks + 7) div 8 - here div 8));
               nx = 8 * int r in
           if nx < maxblocks \<and> nx \<ge> here then nx
           else bitmap_search_next_usable_block here m maxblocks))"

text \<open>Without a window, back up over at most seven free blocks before the one found.\<close>

fun back_up :: "nat \<Rightarrow> int \<Rightarrow> mem \<Rightarrow> int \<Rightarrow> int" where
  "back_up 0 start m goal = goal"
| "back_up (Suc i) start m goal =
     (if goal > start \<and> \<not> ext2_test_bit m (nat (goal - 1)) then back_up i start m (goal - 1) else goal)"

section \<open>Allocating\<close>

text \<open>The second loop: claim the blocks that follow while they are free.\<close>

function claim_more :: "mem \<Rightarrow> int \<Rightarrow> int \<Rightarrow> nat \<Rightarrow> nat \<Rightarrow> (int \<times> nat) \<times> mem" where
  "claim_more m goal lim num count =
     (if num < count \<and> goal < lim \<and> \<not> ext2_test_bit m (nat goal)
      then claim_more (ext2_set_bit m (nat goal)) (goal + 1) lim (num + 1) count
      else ((goal, num), m))"
  by pat_completeness auto
termination by (relation "measure (\<lambda>(m, goal, lim, num, count). count - num)") auto

declare claim_more.simps [simp del]

text \<open>
  The first loop: find a block to start with. The result is the first block allocated or -1, the
  number of blocks allocated, and the bitmap.
\<close>

definition pick_goal :: "bool \<Rightarrow> mem \<Rightarrow> int \<Rightarrow> int \<Rightarrow> int \<Rightarrow> int" where
  "pick_goal has_rsv m start lim goal =
     (if goal < 0 then
        let g = find_next_usable_block start m lim in
        if g < 0 then - 1 else if has_rsv then g else back_up 7 start m g
      else goal)"

function alloc_repeat ::
  "bool \<Rightarrow> mem \<Rightarrow> int \<Rightarrow> int \<Rightarrow> int \<Rightarrow> nat \<Rightarrow> (int \<times> nat) \<times> mem" where
  "alloc_repeat has_rsv m start lim goal count =
     (let g = pick_goal has_rsv m start lim goal in
      if g < 0 then ((- 1, 0), m)
      else if ext2_test_bit m (nat g) then
        (if g + 1 \<ge> lim then ((- 1, 0), m) else alloc_repeat has_rsv m (g + 1) lim (g + 1) count)
      else
        (case claim_more (ext2_set_bit m (nat g)) (g + 1) lim 1 count of
           ((goal', num), m') \<Rightarrow> ((goal' - int num, num), m')))"
  by pat_completeness auto

section \<open>Bits, abstractly\<close>

text \<open>
  What the allocators rely on: setting and clearing a bit are seen by the test of that bit and of no
  other. The laws about runs of bits and about the number of free bits follow from it.
\<close>

locale bit_store =
  fixes tst :: "'m \<Rightarrow> nat \<Rightarrow> bool" and st :: "'m \<Rightarrow> nat \<Rightarrow> 'm" and cl :: "'m \<Rightarrow> nat \<Rightarrow> 'm"
  assumes tst_st: "tst (st m i) j \<longleftrightarrow> j = i \<or> tst m j"
    and tst_cl: "tst (cl m i) j \<longleftrightarrow> j \<noteq> i \<and> tst m j"
begin

definition free_bits :: "'m \<Rightarrow> nat \<Rightarrow> nat set" where
  "free_bits m n = {i. i < n \<and> \<not> tst m i}"

lemma finite_free_bits [simp]: "finite (free_bits m n)"
  by (simp add: free_bits_def)

lemma free_bits_st: "free_bits (st m i) n = free_bits m n - {i}"
  by (auto simp: free_bits_def tst_st)

lemma free_bits_cl: "i < n \<Longrightarrow> free_bits (cl m i) n = insert i (free_bits m n)"
  by (auto simp: free_bits_def tst_cl)

lemma card_free_st:
  "i < n \<Longrightarrow> \<not> tst m i \<Longrightarrow> card (free_bits (st m i) n) + 1 = card (free_bits m n)"
proof -
  assume "i < n" "\<not> tst m i"
  then have "i \<in> free_bits m n" by (simp add: free_bits_def)
  then show ?thesis
    using card_Suc_Diff1 [OF finite_free_bits, of i m n] by (simp add: free_bits_st)
qed

lemma card_free_cl:
  "i < n \<Longrightarrow> tst m i \<Longrightarrow> card (free_bits (cl m i) n) = card (free_bits m n) + 1"
  by (simp add: free_bits_cl) (simp add: free_bits_def)

lemma tst_fold_st: "tst (fold (\<lambda>i m. st m i) xs m) j \<longleftrightarrow> j \<in> set xs \<or> tst m j"
  by (induction xs arbitrary: m) (auto simp: tst_st)

lemma tst_fold_cl: "tst (fold (\<lambda>i m. cl m i) xs m) j \<longleftrightarrow> j \<notin> set xs \<and> tst m j"
  by (induction xs arbitrary: m) (auto simp: tst_cl)

lemma card_free_fold_st:
  "distinct xs \<Longrightarrow> (\<forall>i\<in>set xs. i < n \<and> \<not> tst m i) \<Longrightarrow>
     card (free_bits (fold (\<lambda>i m. st m i) xs m) n) + length xs = card (free_bits m n)"
proof (induction xs arbitrary: m)
  case (Cons x xs)
  then have "card (free_bits (fold (\<lambda>i m. st m i) xs (st m x)) n) + length xs = card (free_bits (st m x) n)"
    by (intro Cons.IH) (auto simp: tst_st)
  then show ?case using card_free_st [of x n m] Cons.prems by simp
qed simp

end

lemma bit_exp_8: "bit ((2 :: u8) ^ k) j \<longleftrightarrow> j = k \<and> k < 8"
  by (auto simp: bit_simps)

lemma div_mod_8_eq: "i div 8 = j div 8 \<Longrightarrow> i mod 8 = j mod 8 \<Longrightarrow> i = (j :: nat)"
  by (metis div_mod_decomp)

lemma test_set_bit: "ext2_test_bit (ext2_set_bit m i) j \<longleftrightarrow> j = i \<or> ext2_test_bit m j"
proof (cases "j = i")
  case False
  then have "j div 8 \<noteq> i div 8 \<or> j mod 8 \<noteq> i mod 8" using div_mod_8_eq by blast
  then show ?thesis
    using False by (elim disjE) (simp_all add: ext2_test_bit_def ext2_set_bit_def bit_or_iff bit_exp_8)
qed (simp add: ext2_test_bit_def ext2_set_bit_def bit_or_iff bit_exp_8)

lemma test_clear_bit: "ext2_test_bit (ext2_clear_bit m i) j \<longleftrightarrow> j \<noteq> i \<and> ext2_test_bit m j"
proof (cases "j = i")
  case False
  then have "j div 8 \<noteq> i div 8 \<or> j mod 8 \<noteq> i mod 8" using div_mod_8_eq by blast
  then show ?thesis
    using False by (elim disjE) (simp_all add: ext2_test_bit_def ext2_clear_bit_def bit_and_iff bit_not_iff bit_exp_8)
qed (simp add: ext2_test_bit_def ext2_clear_bit_def bit_and_iff bit_not_iff bit_exp_8)

interpretation bm: bit_store ext2_test_bit ext2_set_bit ext2_clear_bit
  by unfold_locales (simp_all add: test_set_bit test_clear_bit)

section \<open>What the searches find\<close>

lemma find_upt_Some:
  "find P [a..<b] = Some i \<Longrightarrow> a \<le> i \<and> i < b \<and> P i \<and> (\<forall>j. a \<le> j \<longrightarrow> j < i \<longrightarrow> \<not> P j)"
  by (auto simp: find_Some_iff) (metis add_diff_inverse_nat add_less_cancel_left linorder_not_le)

lemma find_upt_None: "find P [a..<b] = None \<Longrightarrow> a \<le> j \<Longrightarrow> j < b \<Longrightarrow> \<not> P j"
  by (auto simp: find_None_iff)

lemma find_next_zero_bit_found:
  assumes "ext2_find_next_zero_bit m sz off < sz"
  shows "off \<le> ext2_find_next_zero_bit m sz off" "\<not> ext2_test_bit m (ext2_find_next_zero_bit m sz off)"
    "\<And>j. off \<le> j \<Longrightarrow> j < ext2_find_next_zero_bit m sz off \<Longrightarrow> ext2_test_bit m j"
  using assms by (auto simp: ext2_find_next_zero_bit_def dest!: find_upt_Some split: option.splits)

lemma find_next_zero_bit_none:
  assumes "sz \<le> ext2_find_next_zero_bit m sz off" "off \<le> j" "j < sz"
  shows "ext2_test_bit m j"
  using assms by (auto simp: ext2_find_next_zero_bit_def dest: find_upt_Some find_upt_None split: option.splits)

lemma bitmap_search_spec:
  assumes "0 \<le> start"
  shows "bitmap_search_next_usable_block start m maxb = - 1 \<and>
      (\<forall>j. start \<le> j \<longrightarrow> j < maxb \<longrightarrow> ext2_test_bit m (nat j)) \<or>
    start \<le> bitmap_search_next_usable_block start m maxb \<and> bitmap_search_next_usable_block start m maxb < maxb \<and>
      \<not> ext2_test_bit m (nat (bitmap_search_next_usable_block start m maxb)) \<and>
      (\<forall>j. start \<le> j \<longrightarrow> j < bitmap_search_next_usable_block start m maxb \<longrightarrow> ext2_test_bit m (nat j))"
proof (cases "int (ext2_find_next_zero_bit m (nat maxb) (nat start)) \<ge> maxb")
  case True
  then have "nat maxb \<le> ext2_find_next_zero_bit m (nat maxb) (nat start)" by linarith
  then have "ext2_test_bit m (nat j)" if "start \<le> j" "j < maxb" for j
    using find_next_zero_bit_none [of "nat maxb" m "nat start" "nat j"] that assms by linarith
  then show ?thesis using True by (simp add: bitmap_search_next_usable_block_def)
next
  case False
  then have lt: "ext2_find_next_zero_bit m (nat maxb) (nat start) < nat maxb" by linarith
  have "ext2_test_bit m (nat j)" if "start \<le> j" "j < int (ext2_find_next_zero_bit m (nat maxb) (nat start))" for j
    using find_next_zero_bit_found(3) [OF lt, of "nat j"] that assms by linarith
  then show ?thesis
    using False find_next_zero_bit_found(1,2) [OF lt] assms
    by (simp add: bitmap_search_next_usable_block_def)
qed

lemma find_near_goal_spec:
  assumes "find_near_goal start m maxb = Some g"
  shows "start \<le> g \<and> g < maxb \<and> \<not> ext2_test_bit m (nat g)"
proof -
  define e where "e = (if (start + 63) AND NOT 63 > maxb then maxb else (start + 63) AND NOT 63)"
  have g: "0 < start" "g = int (ext2_find_next_zero_bit m (nat e) (nat start))" "g < e" "e \<le> maxb"
    using assms by (auto simp: find_near_goal_def e_def Let_def split: if_splits)
  then have "ext2_find_next_zero_bit m (nat e) (nat start) < nat e" by linarith
  from find_next_zero_bit_found [OF this] g show ?thesis by auto
qed

lemma memscan0_found:
  assumes "memscan0 m p n < p + n"
  shows "m (memscan0 m p n) = 0" "p \<le> memscan0 m p n"
  using assms by (auto simp: memscan0_def dest!: find_upt_Some split: option.splits)

lemma zero_byte_bit: "m i = 0 \<Longrightarrow> \<not> ext2_test_bit m (8 * i)"
  by (simp add: ext2_test_bit_def)

lemma find_next_usable_block_spec:
  assumes "0 \<le> start"
  shows "find_next_usable_block start m maxb = - 1 \<and>
      (\<forall>j. start \<le> j \<longrightarrow> j < maxb \<longrightarrow> ext2_test_bit m (nat j)) \<or>
    start \<le> find_next_usable_block start m maxb \<and> find_next_usable_block start m maxb < maxb \<and>
      \<not> ext2_test_bit m (nat (find_next_usable_block start m maxb))"
proof (cases "find_near_goal start m maxb")
  case (Some g)
  then show ?thesis using find_near_goal_spec [OF Some] by (simp add: find_next_usable_block_def)
next
  case None
  let ?r = "memscan0 m (nat (start div 8)) (nat ((maxb + 7) div 8 - start div 8))"
  show ?thesis
  proof (cases "8 * int ?r < maxb \<and> 8 * int ?r \<ge> start")
    case True
    then have "?r < nat (start div 8) + nat ((maxb + 7) div 8 - start div 8)"
      using assms by linarith
    then have "m ?r = 0" by (rule memscan0_found)
    then have "\<not> ext2_test_bit m (nat (8 * int ?r))"
      using zero_byte_bit [of m ?r] by (simp add: nat_mult_distrib)
    moreover have "find_next_usable_block start m maxb = 8 * int ?r"
      using None True assms by (simp add: find_next_usable_block_def Let_def)
    ultimately show ?thesis using True by simp
  next
    case False
    then have "find_next_usable_block start m maxb = bitmap_search_next_usable_block start m maxb"
      using None assms by (auto simp: find_next_usable_block_def Let_def)
    then show ?thesis using bitmap_search_spec [OF assms, of m maxb] by auto
  qed
qed

lemma back_up_spec:
  "start \<le> g \<Longrightarrow> \<not> ext2_test_bit m (nat g) \<Longrightarrow>
     start \<le> back_up n start m g \<and> back_up n start m g \<le> g \<and> \<not> ext2_test_bit m (nat (back_up n start m g))"
  by (induction n start m g rule: back_up.induct) auto

lemma pick_goal_spec:
  assumes "0 \<le> start"
  shows "goal < 0 \<Longrightarrow> pick_goal rsv m start lim goal < 0 \<Longrightarrow> start \<le> j \<Longrightarrow> j < lim \<Longrightarrow> ext2_test_bit m (nat j)"
    and "goal < 0 \<Longrightarrow> 0 \<le> pick_goal rsv m start lim goal \<Longrightarrow>
      start \<le> pick_goal rsv m start lim goal \<and> pick_goal rsv m start lim goal < lim \<and>
      \<not> ext2_test_bit m (nat (pick_goal rsv m start lim goal))"
    and "0 \<le> goal \<Longrightarrow> pick_goal rsv m start lim goal = goal"
  using find_next_usable_block_spec [OF assms, of m lim]
    back_up_spec [of start "find_next_usable_block start m lim" m 7] assms
  by (auto simp: pick_goal_def Let_def split: if_splits)

text \<open>Every further round starts at a later block, so the search ends.\<close>

termination alloc_repeat
proof (relation "measure (\<lambda>(rsv, m, start, lim, goal, count).
    if goal < 0 then Suc (nat (lim - start)) else nat (lim - goal))", simp)
  fix rsv m start lim goal count g
  assume g: "g = pick_goal rsv m start lim goal" "\<not> g < 0" "ext2_test_bit m (nat g)" "\<not> lim \<le> g + 1"
  show "((rsv, m, g + 1, lim, g + 1, count), rsv, m, start, lim, goal, count) \<in> measure (\<lambda>(rsv, m, start, lim, goal, count).
      if goal < 0 then Suc (nat (lim - start)) else nat (lim - goal))"
  proof (cases "goal < 0")
    case True
    have "\<not> 0 \<le> start"
      using pick_goal_spec(2) [of start goal rsv m lim] g True by auto
    then have "start < 0" by linarith
    then have "lim - (g + 1) < lim - start" using g(2) by linarith
    then show ?thesis using True g by auto
  next
    case False
    then have "g = goal" using g by (simp add: pick_goal_def)
    then show ?thesis using False g by auto
  qed
qed

declare alloc_repeat.simps [simp del]

definition ext2_group_first_block_no :: "kstate \<Rightarrow> nat \<Rightarrow> nat" where
  "ext2_group_first_block_no s grp =
     grp * s_blocks_per_group (ks_sbi s) + unat (es_first_data_block (ks_es s))"

text \<open>
  The range of the search: the part of the window that lies in the group, from the goal if it is in
  it, or the group from the goal on. The result is the start, the end and the goal.
\<close>

definition alloc_range ::
  "kstate \<Rightarrow> nat \<Rightarrow> int \<Rightarrow> ext2_reserve_window option \<Rightarrow> int \<times> int \<times> int" where
  "alloc_range s grp grp_goal my_rsv =
     (let bpg = int (s_blocks_per_group (ks_sbi s)) in
      case my_rsv of
        Some rsv \<Rightarrow>
          (let first = int (ext2_group_first_block_no s grp);
               start = (if int (rsv_start rsv) \<ge> first then int (rsv_start rsv) - first else 0);
               lim0 = int (rsv_end rsv) - first + 1;
               lim = (if lim0 > bpg then bpg else lim0) in
           if start \<le> grp_goal \<and> grp_goal < lim then (grp_goal, lim, grp_goal) else (start, lim, - 1))
      | None \<Rightarrow> (if grp_goal > 0 then grp_goal else 0, bpg, grp_goal))"

text \<open>
  The allocation in one group. The result is the group-relative first block or -1, the number of
  blocks (0 on failure) and the bitmap; None is \<open>BUG_ON\<close>.
\<close>

definition ext2_try_to_allocate ::
  "kstate \<Rightarrow> nat \<Rightarrow> mem \<Rightarrow> int \<Rightarrow> nat \<Rightarrow> ext2_reserve_window option \<Rightarrow> ((int \<times> nat) \<times> mem) option" where
  "ext2_try_to_allocate s grp m grp_goal count my_rsv =
     (case alloc_range s grp grp_goal my_rsv of
        (start, lim, goal) \<Rightarrow>
          if start > int (s_blocks_per_group (ks_sbi s)) then None
          else Some (alloc_repeat (my_rsv \<noteq> None) m start lim goal count))"

section \<open>What an allocation does\<close>

lemma claim_more_spec:
  assumes "claim_more m goal lim num count = ((g', num'), m')" "0 \<le> goal"
  shows "num \<le> num' \<and> num' \<le> max num count \<and> g' - int num' = goal - int num \<and> g' \<le> max goal lim \<and> goal \<le> g' \<and>
    m' = fold (\<lambda>i m. ext2_set_bit m i) [nat goal..<nat g'] m \<and> (\<forall>i\<in>{nat goal..<nat g'}. \<not> ext2_test_bit m i)"
  using assms
proof (induction m goal lim num count rule: claim_more.induct)
  case (1 m goal lim num count)
  show ?case
  proof (cases "num < count \<and> goal < lim \<and> \<not> ext2_test_bit m (nat goal)")
    case True
    then have "claim_more (ext2_set_bit m (nat goal)) (goal + 1) lim (num + 1) count = ((g', num'), m')"
      using "1.prems"(1) by (subst (asm) claim_more.simps) simp
    note IH = "1.IH" [OF True this] and ls = this
    have suc: "nat (goal + 1) = Suc (nat goal)" using "1.prems"(2) by simp
    have rng: "[nat goal..<nat g'] = nat goal # [Suc (nat goal)..<nat g']"
      using IH "1.prems"(2) by (intro upt_conv_Cons) linarith
    show ?thesis
      using IH True "1.prems"(2) unfolding rng suc
      by (auto simp: test_set_bit) (metis Suc_leI atLeastLessThan_iff le_neq_implies_less)+
  next
    case False
    then show ?thesis using "1.prems" by (subst (asm) claim_more.simps) auto
  qed
qed

definition alloc_outcome :: "mem \<Rightarrow> int \<Rightarrow> int \<Rightarrow> nat \<Rightarrow> int \<Rightarrow> nat \<Rightarrow> mem \<Rightarrow> bool" where
  "alloc_outcome m start lim count r num m' \<longleftrightarrow>
     (if r < 0 then r = - 1 \<and> num = 0 \<and> m' = m \<and> (\<forall>j. start \<le> j \<longrightarrow> j < lim \<longrightarrow> ext2_test_bit m (nat j))
      else start \<le> r \<and> r + int num \<le> lim \<and> 1 \<le> num \<and> num \<le> max 1 count \<and>
        (\<forall>i. r \<le> int i \<longrightarrow> int i < r + int num \<longrightarrow> \<not> ext2_test_bit m i) \<and>
        (\<forall>i. ext2_test_bit m' i \<longleftrightarrow> ext2_test_bit m i \<or> r \<le> int i \<and> int i < r + int num))"

lemma claim_run_outcome:
  assumes "claim_more (ext2_set_bit m (nat g)) (g + 1) lim 1 count = ((g', num), m')"
    and "0 \<le> start" "start \<le> g" "g < lim" "\<not> ext2_test_bit m (nat g)"
  shows "alloc_outcome m start lim count (g' - int num) num m'"
proof -
  note sp = claim_more_spec [OF assms(1)]
  have r: "g' - int num = g" and n: "1 \<le> num" "num \<le> max 1 count" and g': "g + 1 \<le> g'" "g' \<le> lim"
    using sp assms(2-4) by auto
  have rng: "{nat (g + 1)..<nat g'} = {i. g + 1 \<le> int i \<and> int i < g'}"
    using assms(2,3) by auto
  have "\<not> ext2_test_bit m i" if "g \<le> int i" "int i < g + int num" for i
  proof (cases "int i = g")
    case True
    then have "i = nat g" by linarith
    then show ?thesis using assms(5) by simp
  next
    case False
    then have "i \<in> {nat (g + 1)..<nat g'}" using that r unfolding rng by auto
    then have "\<not> ext2_test_bit (ext2_set_bit m (nat g)) i" using sp assms(2,3) by simp
    then show ?thesis by (simp add: test_set_bit)
  qed
  moreover have "ext2_test_bit m' i \<longleftrightarrow> ext2_test_bit m i \<or> g \<le> int i \<and> int i < g + int num" for i
  proof -
    have "ext2_test_bit m' i \<longleftrightarrow> i \<in> {nat (g + 1)..<nat g'} \<or> i = nat g \<or> ext2_test_bit m i"
      using sp assms(2,3) by (auto simp: bm.tst_fold_st test_set_bit)
    then show ?thesis unfolding rng using assms(2,3) r n by auto
  qed
  ultimately show ?thesis using r n g' assms(2,3) by (simp add: alloc_outcome_def)
qed

lemma alloc_repeat_outcome:
  assumes "alloc_repeat rsv m start lim goal count = ((r, num), m')"
    and "0 \<le> start" "goal < 0 \<or> goal = start \<and> start < lim"
  shows "alloc_outcome m start lim count r num m'"
  using assms
proof (induction rsv m start lim goal count rule: alloc_repeat.induct)
  case (1 rsv m start lim goal count)
  define g where "g = pick_goal rsv m start lim goal"
  note ps = pick_goal_spec [OF "1.prems"(2), where goal = goal and rsv = rsv and m = m and lim = lim, folded g_def]
  have unf: "alloc_repeat rsv m start lim goal count =
    (if g < 0 then ((- 1, 0), m)
      else if ext2_test_bit m (nat g) then
        (if g + 1 \<ge> lim then ((- 1, 0), m) else alloc_repeat rsv m (g + 1) lim (g + 1) count)
      else
        (case claim_more (ext2_set_bit m (nat g)) (g + 1) lim 1 count of
           ((goal', num), m') \<Rightarrow> ((goal' - int num, num), m')))"
    by (subst alloc_repeat.simps) (simp add: Let_def g_def)
  consider "g < 0" | "0 \<le> g" "ext2_test_bit m (nat g)" | "0 \<le> g" "\<not> ext2_test_bit m (nat g)" by linarith
  then show ?case
  proof cases
    case 1
    then show ?thesis using "1.prems" ps unf by (auto simp: alloc_outcome_def)
  next
    case 2
    then have goal: "goal = start" "g = start" "start < lim" using "1.prems"(2,3) ps by auto
    show ?thesis
    proof (cases "lim \<le> g + 1")
      case True
      then have "j = g" if "start \<le> j" "j < lim" for j using that goal by linarith
      then show ?thesis using "1.prems"(1) 2 True unf by (auto simp: alloc_outcome_def)
    next
      case False
      then have "alloc_outcome m (g + 1) lim count r num m'"
        using "1.IH" [OF refl, folded g_def] "1.prems"(1) 2 unf by simp
      moreover have "ext2_test_bit m (nat j)" if "start \<le> j" "j < g + 1" for j
        using that 2 goal by (cases "j = g") auto
      ultimately show ?thesis
        unfolding alloc_outcome_def using goal by (auto split: if_splits) (metis order_le_less zless_imp_add1_zle)
    qed
  next
    case 3
    obtain g' n m1 where c: "claim_more (ext2_set_bit m (nat g)) (g + 1) lim 1 count = ((g', n), m1)"
      by (metis prod.collapse)
    moreover have "start \<le> g" "g < lim" using "1.prems"(2,3) ps 3 by auto
    ultimately show ?thesis
      using claim_run_outcome [OF c "1.prems"(2)] 3 "1.prems"(1) unf by auto
  qed
qed

lemma alloc_range_ok:
  assumes "alloc_range s grp grp_goal my_rsv = (start, lim, goal)"
    and "grp_goal < int (s_blocks_per_group (ks_sbi s))"
  shows "0 \<le> start" "lim \<le> int (s_blocks_per_group (ks_sbi s))" "goal < 0 \<or> goal = start \<and> start < lim"
  using assms by (auto simp: alloc_range_def Let_def split: option.splits if_splits)

lemma outcome_free_count:
  assumes "alloc_outcome m start lim count r num m'" "0 \<le> start" "lim \<le> int n"
  shows "card (bm.free_bits m' n) + num = card (bm.free_bits m n)"
proof (cases "r < 0")
  case True
  then show ?thesis using assms by (simp add: alloc_outcome_def)
next
  case False
  let ?R = "{i. r \<le> int i \<and> int i < r + int num}"
  have R: "?R = {nat r..<nat r + num}" using False by auto
  have "bm.free_bits m' n = bm.free_bits m n - ?R" and "?R \<subseteq> bm.free_bits m n"
    using assms False by (auto simp: alloc_outcome_def bm.free_bits_def)
  then show ?thesis
    using card_Diff_subset [of ?R "bm.free_bits m n"] card_mono [OF bm.finite_free_bits, of ?R m n]
    by (simp add: R)
qed

lemma try_to_allocate_outcome:
  assumes "ext2_try_to_allocate s grp m grp_goal count my_rsv = Some ((r, num), m')"
    and "alloc_range s grp grp_goal my_rsv = (start, lim, goal)"
    and "grp_goal < int (s_blocks_per_group (ks_sbi s))"
  shows "alloc_outcome m start lim count r num m'"
  using assms(1,2) alloc_range_ok [OF assms(2,3)]
  by (auto simp: ext2_try_to_allocate_def intro!: alloc_repeat_outcome split: if_splits)

section \<open>Properties\<close>



end
