(* ===== verification/Reservation.thy ===== *)
theory Reservation
  imports Bitmap
begin

text \<open>
  Block reservation windows: the middle of \<open>fs/ext2/balloc.c\<close>. Every regular file that is being
  written owns a window of blocks that other files do not allocate from. The windows are the
  elements of a red-black tree of their owners; \<open>s_rsv_nodes\<close> holds the window of each owner. The
  owner 0 is \<open>s_rsv_window_head\<close>, the empty window that starts the list. A result None is a \<open>BUG\<close>.
\<close>

section \<open>Windows\<close>

abbreviation win :: "ext2_sb_info \<Rightarrow> nat \<Rightarrow> ext2_reserve_window" where
  "win w x \<equiv> rsv_window (s_rsv_nodes w x)"

definition upd_rsv ::
  "nat \<Rightarrow> (ext2_reserve_window_node \<Rightarrow> ext2_reserve_window_node) \<Rightarrow> ext2_sb_info \<Rightarrow> ext2_sb_info" where
  "upd_rsv x f w = w\<lparr>s_rsv_nodes := (s_rsv_nodes w)(x := f (s_rsv_nodes w x))\<rparr>"

definition set_window :: "nat \<Rightarrow> nat \<Rightarrow> nat \<Rightarrow> ext2_sb_info \<Rightarrow> ext2_sb_info" where
  "set_window x a b =
     upd_rsv x (\<lambda>n. n\<lparr>rsv_window := \<lparr>rsv_start = a, rsv_end = b\<rparr>, rsv_alloc_hit := 0\<rparr>)"

definition rsv_is_empty :: "ext2_reserve_window \<Rightarrow> bool" where
  "rsv_is_empty r \<longleftrightarrow> rsv_end r = 0"

text \<open>\<open>__rsv_window_dump\<close>: whether it finds a bad window, at which it stops the kernel.\<close>

fun dump_walk :: "ext2_reserve_window option \<Rightarrow> ext2_reserve_window list \<Rightarrow> bool" where
  "dump_walk prev [] = False"
| "dump_walk prev (r # rs) =
     ((rsv_start r \<noteq> 0 \<and> rsv_start r \<ge> rsv_end r) \<or>
      (case prev of None \<Rightarrow> False | Some p \<Rightarrow> rsv_end p \<ge> rsv_start r) \<or> dump_walk (Some r) rs)"

definition rsv_window_dump :: "ext2_sb_info \<Rightarrow> bool" where
  "rsv_window_dump w = dump_walk None (map (win w) (inorder_rb (s_rsv_window_root w)))"

definition goal_in_my_reservation :: "kstate \<Rightarrow> ext2_reserve_window \<Rightarrow> int \<Rightarrow> nat \<Rightarrow> bool" where
  "goal_in_my_reservation s rsv grp_goal grp =
     (let first = ext2_group_first_block_no s grp;
          lastb = first + s_blocks_per_group (ks_sbi s) - 1 in
      if rsv_start rsv > lastb \<or> rsv_end rsv < first then False
      else if grp_goal \<ge> 0 \<and>
        (grp_goal + int first < int (rsv_start rsv) \<or> grp_goal + int first > int (rsv_end rsv)) then False
      else True)"

section \<open>The tree of windows\<close>

text \<open>The descent: the window that contains the goal (Inl), or the last node visited (Inr).\<close>

fun search_walk :: "ext2_sb_info \<Rightarrow> nat \<Rightarrow> nat rbt \<Rightarrow> nat \<Rightarrow> nat + nat" where
  "search_walk w goal RbE y = Inr y"
| "search_walk w goal (RbN c l x r) y =
     (if goal < rsv_start (win w x) then search_walk w goal l x
      else if goal > rsv_end (win w x) then search_walk w goal r x
      else Inl x)"

definition search_reserve_window :: "ext2_sb_info \<Rightarrow> nat \<Rightarrow> nat option" where
  "search_reserve_window w goal =
     (case s_rsv_window_root w of
        RbE \<Rightarrow> None
      | RbN c l x r \<Rightarrow>
          (case search_walk w goal (RbN c l x r) x of
             Inl y \<Rightarrow> Some y
           | Inr y \<Rightarrow> if rsv_start (win w y) > goal then rb_prev (s_rsv_window_root w) y else Some y))"

fun add_walk :: "ext2_sb_info \<Rightarrow> nat \<Rightarrow> nat rbt \<Rightarrow> nat step list \<Rightarrow> nat step list option" where
  "add_walk w start RbE ps = Some ps"
| "add_walk w start (RbN c l x r) ps =
     (if start < rsv_start (win w x) then add_walk w start l (LeftOf c x r # ps)
      else if start > rsv_end (win w x) then add_walk w start r (RightOf c l x # ps)
      else None)"

definition ext2_rsv_window_add :: "nat \<Rightarrow> ext2_sb_info \<Rightarrow> ext2_sb_info option" where
  "ext2_rsv_window_add x w =
     (case add_walk w (rsv_start (win w x)) (s_rsv_window_root w) [] of
        None \<Rightarrow> None
      | Some ps \<Rightarrow> Some (w\<lparr>s_rsv_window_root := rb_insert_color (RbN Red RbE x RbE) ps\<rparr>))"

definition rsv_window_remove :: "nat \<Rightarrow> ext2_sb_info \<Rightarrow> ext2_sb_info" where
  "rsv_window_remove x w =
     (let w1 = set_window x 0 0 w in w1\<lparr>s_rsv_window_root := rb_remove x (s_rsv_window_root w1)\<rparr>)"

text \<open>\<open>ext2_init_block_alloc_info\<close> and \<open>ext2_discard_reservation\<close> of an inode.\<close>

definition ext2_init_block_alloc_info :: "nat \<Rightarrow> kstate \<Rightarrow> kstate" where
  "ext2_init_block_alloc_info ino s =
     (case ks_icache s ino of
        None \<Rightarrow> s
      | Some ei \<Rightarrow>
          if ks_oom s then s\<lparr>ks_icache := (ks_icache s)(ino \<mapsto> ei\<lparr>i_block_alloc_info := None\<rparr>)\<rparr>
          else
            let node = \<lparr>rsv_goal_size = (if test_opt s MOUNT_RESERVATION then 8 else 0),
                        rsv_alloc_hit = 0, rsv_window = \<lparr>rsv_start = 0, rsv_end = 0\<rparr>\<rparr> in
            s\<lparr>ks_sbi := upd_rsv ino (\<lambda>_. node) (ks_sbi s),
              ks_icache := (ks_icache s)(ino \<mapsto> ei\<lparr>i_block_alloc_info :=
                Some \<lparr>last_alloc_logical_block = 0, last_alloc_physical_block = 0\<rparr>\<rparr>)\<rparr>)"

definition ext2_discard_reservation :: "nat \<Rightarrow> kstate \<Rightarrow> kstate" where
  "ext2_discard_reservation ino s =
     (case ks_icache s ino of
        None \<Rightarrow> s
      | Some ei \<Rightarrow>
          if i_block_alloc_info ei = None then s
          else if \<not> rsv_is_empty (win (ks_sbi s) ino)
          then s\<lparr>ks_sbi := rsv_window_remove ino (ks_sbi s)\<rparr>
          else s)"

section \<open>Finding room for a window\<close>

text \<open>
  The walk along the windows from \<open>rsv\<close> on. The result is the start of the room found and the window
  before it, or None when it is past the last block. One unit of fuel per window is enough.
\<close>

fun reservable_walk ::
  "nat \<Rightarrow> ext2_sb_info \<Rightarrow> nat \<Rightarrow> nat \<Rightarrow> nat \<Rightarrow> nat \<Rightarrow> (nat \<times> nat) option option" where
  "reservable_walk 0 w sz last_block cur rsv = None"
| "reservable_walk (Suc n) w sz last_block cur rsv =
     (let cur1 = (if cur \<le> rsv_end (win w rsv) then rsv_end (win w rsv) + 1 else cur) in
      if cur1 > last_block then Some None
      else case rb_next (s_rsv_window_root w) rsv of
        None \<Rightarrow> Some (Some (cur1, rsv))
      | Some nx \<Rightarrow>
          if cur1 + sz \<le> rsv_start (win w nx) then Some (Some (cur1, rsv))
          else reservable_walk n w sz last_block cur1 nx)"

text \<open>The result is False for the failure -1, True for 0, with the windows.\<close>

definition find_next_reservable_window ::
  "nat option \<Rightarrow> nat \<Rightarrow> ext2_sb_info \<Rightarrow> nat \<Rightarrow> nat \<Rightarrow> (bool \<times> ext2_sb_info) option" where
  "find_next_reservable_window search_head my w start_block last_block =
     (let sz = rsv_goal_size (s_rsv_nodes w my) in
      case search_head of
        None \<Rightarrow> Some (False, w)
      | Some rsv \<Rightarrow>
          (case reservable_walk (Suc (length (inorder_rb (s_rsv_window_root w)))) w sz last_block start_block rsv of
             None \<Rightarrow> None
           | Some None \<Rightarrow> Some (False, w)
           | Some (Some (cur, prev)) \<Rightarrow>
               (let w1 = (if prev \<noteq> my \<and> \<not> rsv_is_empty (win w my) then rsv_window_remove my w else w);
                    w2 = set_window my cur (cur + sz - 1) w1 in
                if prev \<noteq> my then map_option (\<lambda>w3. (True, w3)) (ext2_rsv_window_add my w2)
                else Some (True, w2))))"

definition drop_window :: "nat \<Rightarrow> ext2_sb_info \<Rightarrow> ext2_sb_info" where
  "drop_window my w = (if \<not> rsv_is_empty (win w my) then rsv_window_remove my w else w)"

text \<open>
  The retry loop of \<open>alloc_new_reservation\<close>: every round starts at a later block of the group, so the
  number of blocks of the group is enough fuel.
\<close>

fun reservation_retry ::
  "nat \<Rightarrow> nat \<Rightarrow> nat \<Rightarrow> mem \<Rightarrow> nat option \<Rightarrow> nat \<Rightarrow> nat \<Rightarrow> ext2_sb_info \<Rightarrow> (bool \<times> ext2_sb_info) option" where
  "reservation_retry 0 first lastb m search_head start_block my w = None"
| "reservation_retry (Suc n) first lastb m search_head start_block my w =
     (case find_next_reservable_window search_head my w start_block lastb of
        None \<Rightarrow> None
      | Some (False, w1) \<Rightarrow> Some (False, drop_window my w1)
      | Some (True, w1) \<Rightarrow>
          (let free = bitmap_search_next_usable_block (int (rsv_start (win w1 my)) - int first) m
                        (int lastb - int first + 1) in
           if free < 0 then Some (False, drop_window my w1)
           else
             let start1 = nat free + first in
             if start1 \<ge> rsv_start (win w1 my) \<and> start1 \<le> rsv_end (win w1 my) then Some (True, w1)
             else reservation_retry n first lastb m (Some my) start1 my w1))"

definition alloc_new_reservation ::
  "nat \<Rightarrow> int \<Rightarrow> kstate \<Rightarrow> nat \<Rightarrow> mem \<Rightarrow> ext2_sb_info \<Rightarrow> (bool \<times> ext2_sb_info) option" where
  "alloc_new_reservation my grp_goal s grp m w =
     (let first = ext2_group_first_block_no s grp;
          lastb = first + (s_blocks_per_group (ks_sbi s) - 1);
          start_block = (if grp_goal < 0 then first else nat grp_goal + first);
          rsv = win w my;
          sz = rsv_goal_size (s_rsv_nodes w my) in
      if \<not> rsv_is_empty rsv \<and> rsv_start rsv \<le> lastb \<and> rsv_end rsv > lastb \<and> start_block \<ge> rsv_start rsv
      then Some (False, w)
      else
        let w1 = (if \<not> rsv_is_empty rsv \<and>
                     rsv_alloc_hit (s_rsv_nodes w my) > (rsv_end rsv - rsv_start rsv + 1) div 2
                  then upd_rsv my (\<lambda>n. n\<lparr>rsv_goal_size := min (sz * 2) 1027\<rparr>) w else w) in
        reservation_retry (Suc (s_blocks_per_group (ks_sbi s))) first lastb m
          (search_reserve_window w1 start_block) start_block my w1)"

text \<open>\<open>try_to_extend_reservation\<close>; \<open>locked\<close> is the outcome of \<open>spin_trylock\<close>.\<close>

definition try_to_extend_reservation :: "bool \<Rightarrow> nat \<Rightarrow> nat \<Rightarrow> ext2_sb_info \<Rightarrow> ext2_sb_info" where
  "try_to_extend_reservation locked my sz w =
     (if \<not> locked then w
      else
        let e = rsv_end (win w my);
            set_end = (\<lambda>v. upd_rsv my (\<lambda>n. n\<lparr>rsv_window := (rsv_window n)\<lparr>rsv_end := v\<rparr>\<rparr>) w) in
        case rb_next (s_rsv_window_root w) my of
          None \<Rightarrow> set_end (e + sz)
        | Some nx \<Rightarrow>
            if rsv_start (win w nx) - e - 1 \<ge> sz then set_end (e + sz)
            else set_end (rsv_start (win w nx) - 1))"

section \<open>Allocating from a window\<close>

text \<open>
  The first half of the loop body of \<open>ext2_try_to_allocate_with_rsv\<close>: a new window when there is none,
  the last attempt failed or the goal is outside, otherwise the window is extended to the number of
  blocks wanted. The result is the goal to allocate at, or None when no window could be had.
\<close>

definition with_rsv_window ::
  "kstate \<Rightarrow> nat \<Rightarrow> mem \<Rightarrow> bool \<Rightarrow> int \<Rightarrow> int \<Rightarrow> nat \<Rightarrow> nat \<Rightarrow> ext2_sb_info \<Rightarrow> (int option \<times> ext2_sb_info) option" where
  "with_rsv_window s grp m locked grp_goal ret my count w =
     (if rsv_is_empty (win w my) \<or> ret < 0 \<or> \<not> goal_in_my_reservation s (win w my) grp_goal grp then
        let w1 = (if rsv_goal_size (s_rsv_nodes w my) < count
                  then upd_rsv my (\<lambda>n. n\<lparr>rsv_goal_size := count\<rparr>) w else w) in
        case alloc_new_reservation my grp_goal s grp m w1 of
          None \<Rightarrow> None
        | Some (False, w2) \<Rightarrow> Some (None, w2)
        | Some (True, w2) \<Rightarrow>
            Some (Some (if goal_in_my_reservation s (win w2 my) grp_goal grp then grp_goal else - 1), w2)
      else if grp_goal \<ge> 0 then
        let curr = int (rsv_end (win w my)) - (grp_goal + int (ext2_group_first_block_no s grp)) + 1 in
        Some (Some grp_goal,
          if curr < int count then try_to_extend_reservation locked my (nat (int count - curr)) w else w)
      else Some (Some grp_goal, w))"

text \<open>
  The loop. The result is the first block or -1, the number of blocks, the bitmap and the windows. A
  window that was just allocated has a free block, so the body runs at most twice.
\<close>

fun with_rsv_loop ::
  "nat \<Rightarrow> kstate \<Rightarrow> nat \<Rightarrow> mem \<Rightarrow> bool \<Rightarrow> int \<Rightarrow> int \<Rightarrow> nat \<Rightarrow> nat \<Rightarrow> ext2_sb_info \<Rightarrow>
     ((int \<times> nat) \<times> mem \<times> ext2_sb_info) option" where
  "with_rsv_loop 0 s grp m locked grp_goal ret my count w = None"
| "with_rsv_loop (Suc n) s grp m locked grp_goal ret my count w =
     (let first = ext2_group_first_block_no s grp;
          lastb = first + (s_blocks_per_group (ks_sbi s) - 1) in
      case with_rsv_window s grp m locked grp_goal ret my count w of
        None \<Rightarrow> None
      | Some (None, w2) \<Rightarrow> Some ((- 1, count), m, w2)
      | Some (Some goal, w2) \<Rightarrow>
          if rsv_start (win w2 my) > lastb \<or> rsv_end (win w2 my) < first then None
          else case ext2_try_to_allocate s grp m goal count (Some (win w2 my)) of
            None \<Rightarrow> None
          | Some ((r, num), m') \<Rightarrow>
              if r \<ge> 0 then
                Some ((r, num), m', upd_rsv my (\<lambda>n. n\<lparr>rsv_alloc_hit := rsv_alloc_hit n + num\<rparr>) w2)
              else with_rsv_loop n s grp m' locked goal r my count w2)"

definition ext2_try_to_allocate_with_rsv ::
  "kstate \<Rightarrow> nat \<Rightarrow> mem \<Rightarrow> bool \<Rightarrow> int \<Rightarrow> nat option \<Rightarrow> nat \<Rightarrow> ext2_sb_info \<Rightarrow>
     ((int \<times> nat) \<times> mem \<times> ext2_sb_info) option" where
  "ext2_try_to_allocate_with_rsv s grp m locked grp_goal my_rsv count w =
     (case my_rsv of
        None \<Rightarrow> map_option (\<lambda>(rn, m'). (rn, m', w)) (ext2_try_to_allocate s grp m grp_goal count None)
      | Some my \<Rightarrow> with_rsv_loop 3 s grp m locked grp_goal 0 my count w)"

section \<open>The windows are disjoint\<close>

text \<open>
  The windows in the tree, in its order: non-empty intervals, each ending before the next starts.
\<close>

definition win_sorted :: "(nat \<Rightarrow> ext2_reserve_window) \<Rightarrow> nat list \<Rightarrow> bool" where
  "win_sorted f xs \<longleftrightarrow>
     sorted_wrt (\<lambda>x y. rsv_end (f x) < rsv_start (f y)) xs \<and> (\<forall>x\<in>set xs. rsv_start (f x) \<le> rsv_end (f x))"

text \<open>
  The invariant of the window tree: it is a red-black tree, holds exactly the owners of non-empty
  windows and the head, starts with the head, and its windows are disjoint.
\<close>

definition rsv_inv :: "ext2_sb_info \<Rightarrow> bool" where
  "rsv_inv w \<longleftrightarrow>
     rb_ok (s_rsv_window_root w) \<and> distinct (inorder_rb (s_rsv_window_root w)) \<and>
     (\<exists>rest. inorder_rb (s_rsv_window_root w) = 0 # rest) \<and> win w 0 = \<lparr>rsv_start = 0, rsv_end = 0\<rparr> \<and>
     win_sorted (win w) (inorder_rb (s_rsv_window_root w)) \<and>
     (\<forall>x. x \<in> set (inorder_rb (s_rsv_window_root w)) \<longleftrightarrow> x = 0 \<or> \<not> rsv_is_empty (win w x))"

lemma win_sorted_append:
  "win_sorted f (xs @ ys) \<longleftrightarrow> win_sorted f xs \<and> win_sorted f ys \<and>
     (\<forall>x\<in>set xs. \<forall>y\<in>set ys. rsv_end (f x) < rsv_start (f y))"
  by (auto simp: win_sorted_def sorted_wrt_append)

lemma win_sorted_Cons:
  "win_sorted f (x # ys) \<longleftrightarrow> rsv_start (f x) \<le> rsv_end (f x) \<and> win_sorted f ys \<and>
     (\<forall>y\<in>set ys. rsv_end (f x) < rsv_start (f y))"
  by (auto simp: win_sorted_def)

lemma win_sorted_cong: "(\<And>x. x \<in> set xs \<Longrightarrow> f x = g x) \<Longrightarrow> win_sorted f xs = win_sorted g xs"
  by (induction xs) (auto simp: win_sorted_Cons win_sorted_def [of _ "[]"])

lemma win_sorted_remove1: "win_sorted f xs \<Longrightarrow> win_sorted f (remove1 x xs)"
  by (induction xs) (auto simp: win_sorted_Cons dest: notin_set_remove1)

lemma rsv_fields [simp]:
  "s_rsv_window_root (set_window x a b w) = s_rsv_window_root w"
  "s_rsv_window_root (upd_rsv x f w) = s_rsv_window_root w"
  "s_rsv_nodes (upd_rsv x f w) = (s_rsv_nodes w)(x := f (s_rsv_nodes w x))"
  by (simp_all add: set_window_def upd_rsv_def)

lemma win_set_window: "win (set_window x a b w) = (win w)(x := \<lparr>rsv_start = a, rsv_end = b\<rparr>)"
  by (auto simp: set_window_def)

text \<open>Inserting a window where none of the others is.\<close>

definition fits_gap :: "ext2_sb_info \<Rightarrow> nat \<Rightarrow> nat \<Rightarrow> nat \<Rightarrow> bool" where
  "fits_gap w my a b \<longleftrightarrow>
     (\<forall>y\<in>set (inorder_rb (s_rsv_window_root w)). y \<noteq> my \<longrightarrow> rsv_end (win w y) < a \<or> b < rsv_start (win w y))"

lemma add_walk_spec:
  "add_walk w start t ps = Some qs \<Longrightarrow> plug qs RbE = plug ps t"
  by (induction w start t ps rule: add_walk.induct) (auto split: if_splits)

lemma add_walk_order:
  "win_sorted (win w) (inorder_rb t) \<Longrightarrow>
   (\<And>y. y \<in> set (inorder_rb t) \<Longrightarrow> rsv_end (win w y) < start \<or> start < rsv_start (win w y)) \<Longrightarrow>
   (\<And>y. y \<in> set (before ps) \<Longrightarrow> rsv_end (win w y) < start) \<Longrightarrow>
   (\<And>y. y \<in> set (after ps) \<Longrightarrow> start < rsv_start (win w y)) \<Longrightarrow>
   \<exists>qs. add_walk w start t ps = Some qs \<and> (\<forall>y\<in>set (before qs). rsv_end (win w y) < start) \<and>
     (\<forall>y\<in>set (after qs). start < rsv_start (win w y))"
proof (induction w start t ps rule: add_walk.induct)
  case (2 w start c l x r ps)
  have srt: "win_sorted (win w) (inorder_rb l)" "win_sorted (win w) (inorder_rb r)"
    "\<forall>y\<in>set (inorder_rb l). rsv_end (win w y) < rsv_start (win w x)"
    "\<forall>y\<in>set (inorder_rb r). rsv_end (win w x) < rsv_start (win w y)"
    "rsv_start (win w x) \<le> rsv_end (win w x)"
    using "2.prems"(1) by (auto simp: win_sorted_append win_sorted_Cons)
  show ?case
  proof (cases "start < rsv_start (win w x)")
    case True
    then show ?thesis
      using "2.IH"(1) [OF True srt(1)] "2.prems" srt by fastforce
  next
    case False
    then have gt: "start > rsv_end (win w x)" using "2.prems"(2) [of x] by simp
    show ?thesis
      using "2.IH"(2) [OF False gt srt(2)] "2.prems" srt False gt by fastforce
  qed
qed auto

lemma rsv_window_add_ok:
  assumes inv: "rb_ok (s_rsv_window_root w)" "win_sorted (win w) (inorder_rb (s_rsv_window_root w))"
    and new: "x \<notin> set (inorder_rb (s_rsv_window_root w))" "rsv_start (win w x) \<le> rsv_end (win w x)"
    and gap: "fits_gap w x (rsv_start (win w x)) (rsv_end (win w x))"
  obtains t xs ys where "ext2_rsv_window_add x w = Some (w\<lparr>s_rsv_window_root := t\<rparr>)" "rb_ok t"
    "inorder_rb t = xs @ x # ys" "inorder_rb (s_rsv_window_root w) = xs @ ys"
    "win_sorted (win w) (xs @ x # ys)"
proof -
  let ?a = "rsv_start (win w x)" and ?b = "rsv_end (win w x)"
  have "rsv_end (win w y) < ?a \<or> ?a < rsv_start (win w y)" if "y \<in> set (inorder_rb (s_rsv_window_root w))" for y
    using gap new that by (force simp: fits_gap_def)
  then obtain qs where qs: "add_walk w ?a (s_rsv_window_root w) [] = Some qs"
    "\<forall>y\<in>set (before qs). rsv_end (win w y) < ?a" "\<forall>y\<in>set (after qs). ?a < rsv_start (win w y)"
    using add_walk_order [of w "s_rsv_window_root w" ?a "[]"] inv(2) by auto
  let ?t = "rb_insert_color (RbN Red RbE x RbE) qs"
  have pl: "plug qs RbE = s_rsv_window_root w" using add_walk_spec [OF qs(1)] by simp
  then have ord: "inorder_rb (s_rsv_window_root w) = before qs @ after qs"
    using inorder_plug [of qs RbE] by simp
  have "fits qs (bheight RbE)" using unplug_ok [of qs RbE] inv(1) pl by simp
  then have ok: "rb_ok ?t" by (intro rb_insert_color_ok) simp_all
  have "?b < rsv_start (win w y)" if "y \<in> set (after qs)" for y
  proof -
    have y: "y \<in> set (inorder_rb (s_rsv_window_root w))" "y \<noteq> x" using that new by (auto simp: ord)
    then have "rsv_start (win w y) \<le> rsv_end (win w y)" using inv(2) by (auto simp: win_sorted_def)
    then show ?thesis using gap y qs(3) that by (force simp: fits_gap_def)
  qed
  then have "win_sorted (win w) (before qs @ x # after qs)"
    using inv(2) qs(2,3) new unfolding ord by (auto simp: win_sorted_append win_sorted_Cons)
  moreover have "ext2_rsv_window_add x w = Some (w\<lparr>s_rsv_window_root := ?t\<rparr>)"
    by (simp add: ext2_rsv_window_add_def qs(1))
  moreover have "inorder_rb ?t = before qs @ x # after qs"
    by (simp add: inorder_insert_color)
  ultimately show ?thesis using that ok ord by blast
qed

lemma rsv_inv_basic:
  assumes "rsv_inv w"
  shows "rb_ok (s_rsv_window_root w)" "distinct (inorder_rb (s_rsv_window_root w))"
    "win_sorted (win w) (inorder_rb (s_rsv_window_root w))" "0 \<in> set (inorder_rb (s_rsv_window_root w))"
    "x \<in> set (inorder_rb (s_rsv_window_root w)) \<longleftrightarrow> x = 0 \<or> \<not> rsv_is_empty (win w x)"
    "win w 0 = \<lparr>rsv_start = 0, rsv_end = 0\<rparr>"
  using assms by (auto simp: rsv_inv_def)

text \<open>The windows of different owners have no block in common.\<close>

lemma win_sorted_disjoint:
  "win_sorted f xs \<Longrightarrow> x \<in> set xs \<Longrightarrow> y \<in> set xs \<Longrightarrow> x \<noteq> y \<Longrightarrow>
     rsv_end (f x) < rsv_start (f y) \<or> rsv_end (f y) < rsv_start (f x)"
  by (induction xs) (auto simp: win_sorted_Cons)

text \<open>The walk: one step per window, and the room found is between two windows.\<close>

lemma reservable_walk_ok:
  assumes "inorder_rb (s_rsv_window_root w) = xs @ rsv # ys" "distinct (inorder_rb (s_rsv_window_root w))"
    "win_sorted (win w) (inorder_rb (s_rsv_window_root w))" "length ys < n"
  shows "\<exists>res. reservable_walk n w sz lastb cur rsv = Some res \<and>
    (\<forall>a prev. res = Some (a, prev) \<longrightarrow> cur \<le> a \<and> a \<le> lastb \<and>
       (\<exists>us vs. inorder_rb (s_rsv_window_root w) = us @ prev # vs \<and>
         (\<forall>y\<in>set (us @ [prev]). rsv_end (win w y) < a) \<and> (\<forall>y\<in>set vs. a + sz \<le> rsv_start (win w y))))"
  using assms(1,4)
proof (induction n arbitrary: xs rsv ys cur)
  case (Suc n)
  define cur1 where "cur1 = (if cur \<le> rsv_end (win w rsv) then rsv_end (win w rsv) + 1 else cur)"
  have c1: "cur \<le> cur1" "rsv_end (win w rsv) < cur1" by (auto simp: cur1_def)
  have nx: "rb_next (s_rsv_window_root w) rsv = (if ys = [] then None else Some (hd ys))"
    using Suc.prems(1) assms(2) by (rule rb_next_order)
  have srt: "win_sorted (win w) (xs @ rsv # ys)" using assms(3) Suc.prems(1) by simp
  have left: "\<forall>y\<in>set (xs @ [rsv]). rsv_end (win w y) < cur1"
    using srt c1 by (force simp: win_sorted_append win_sorted_Cons)
  show ?case
  proof (cases ys)
    case Nil
    then have "\<exists>us vs. inorder_rb (s_rsv_window_root w) = us @ rsv # vs \<and>
         (\<forall>y\<in>set (us @ [rsv]). rsv_end (win w y) < cur1) \<and> (\<forall>y\<in>set vs. cur1 + sz \<le> rsv_start (win w y))"
      using left Suc.prems(1) by (intro exI [of _ xs] exI [of _ "[]"]) simp
    with Nil show ?thesis using nx c1 by (simp add: cur1_def [symmetric] Let_def)
  next
    case (Cons z zs)
    have right: "\<forall>y\<in>set ys. rsv_start (win w z) \<le> rsv_start (win w y)"
      using srt by (auto simp: Cons win_sorted_append win_sorted_Cons)
    show ?thesis
    proof (cases "cur1 + sz \<le> rsv_start (win w z)")
      case True
      then have "\<exists>us vs. inorder_rb (s_rsv_window_root w) = us @ rsv # vs \<and>
         (\<forall>y\<in>set (us @ [rsv]). rsv_end (win w y) < cur1) \<and> (\<forall>y\<in>set vs. cur1 + sz \<le> rsv_start (win w y))"
        using left right Suc.prems(1) by (intro exI [of _ xs] exI [of _ ys]) force
      with Cons show ?thesis using nx c1 True by (simp add: cur1_def [symmetric] Let_def)
    next
      case False
      have "inorder_rb (s_rsv_window_root w) = (xs @ [rsv]) @ z # zs" "length zs < n"
        using Suc.prems by (simp_all add: Cons)
      from Suc.IH [OF this, of cur1] obtain res where r: "reservable_walk n w sz lastb cur1 z = Some res"
        "\<forall>a prev. res = Some (a, prev) \<longrightarrow> cur1 \<le> a \<and> a \<le> lastb \<and>
          (\<exists>us vs. inorder_rb (s_rsv_window_root w) = us @ prev # vs \<and>
         (\<forall>y\<in>set (us @ [prev]). rsv_end (win w y) < a) \<and> (\<forall>y\<in>set vs. a + sz \<le> rsv_start (win w y)))"
        by blast
      show ?thesis
      proof (cases "lastb < cur1")
        case True
        then show ?thesis by (simp add: cur1_def [symmetric] Let_def)
      next
        case le: False
        have "reservable_walk (Suc n) w sz lastb cur rsv = Some res"
          using nx False le r(1) by (simp add: cur1_def [symmetric] Let_def Cons)
        then show ?thesis using r(2) c1(1) by (meson le_trans)
      qed
    qed
  qed
qed simp

text \<open>Changes confined to the windows: the tree, and the node of one owner.\<close>

definition rsv_frame :: "nat \<Rightarrow> ext2_sb_info \<Rightarrow> ext2_sb_info \<Rightarrow> bool" where
  "rsv_frame my w w' \<longleftrightarrow>
     w' = w\<lparr>s_rsv_window_root := s_rsv_window_root w', s_rsv_nodes := s_rsv_nodes w'\<rparr> \<and>
     (\<forall>x. x \<noteq> my \<longrightarrow> s_rsv_nodes w' x = s_rsv_nodes w x)"

lemma rsv_frame_refl [simp]: "rsv_frame my w w"
  by (simp add: rsv_frame_def)

lemma rsv_frame_trans:
  assumes "rsv_frame my w w'" "rsv_frame my w' w''"
  shows "rsv_frame my w w''"
proof -
  have w': "w' = w\<lparr>s_rsv_window_root := s_rsv_window_root w', s_rsv_nodes := s_rsv_nodes w'\<rparr>"
    and w'': "w'' = w'\<lparr>s_rsv_window_root := s_rsv_window_root w'', s_rsv_nodes := s_rsv_nodes w''\<rparr>"
    using assms by (simp_all add: rsv_frame_def)
  have "w'\<lparr>s_rsv_window_root := t, s_rsv_nodes := n\<rparr> = w\<lparr>s_rsv_window_root := t, s_rsv_nodes := n\<rparr>" for t n
    by (subst w') simp
  then show ?thesis using w'' assms by (simp add: rsv_frame_def)
qed

lemma rsv_frame_upd [simp]:
  "rsv_frame my w (upd_rsv my f w)" "rsv_frame my w (set_window my a b w)"
  "rsv_frame my w (w\<lparr>s_rsv_window_root := t\<rparr>)"
  by (simp_all add: rsv_frame_def upd_rsv_def set_window_def)

lemma rsv_window_remove_inv:
  assumes "rsv_inv w" "my \<noteq> 0"
  shows "rsv_inv (rsv_window_remove my w)" "rsv_frame my w (rsv_window_remove my w)"
    "s_rsv_nodes (rsv_window_remove my w) my = (s_rsv_nodes w my)\<lparr>rsv_window := \<lparr>rsv_start = 0, rsv_end = 0\<rparr>, rsv_alloc_hit := 0\<rparr>"
    "inorder_rb (s_rsv_window_root (rsv_window_remove my w)) = remove1 my (inorder_rb (s_rsv_window_root w))"
proof -
  let ?w = "rsv_window_remove my w"
  note b = rsv_inv_basic [OF assms(1)]
  show root: "inorder_rb (s_rsv_window_root ?w) = remove1 my (inorder_rb (s_rsv_window_root w))"
    using b(2) by (simp add: rsv_window_remove_def Let_def inorder_remove)
  have ok: "rb_ok (s_rsv_window_root ?w)"
    using b(1) by (simp add: rsv_window_remove_def Let_def rb_remove_ok)
  have wn: "win ?w x = (if x = my then \<lparr>rsv_start = 0, rsv_end = 0\<rparr> else win w x)" for x
    by (simp add: rsv_window_remove_def Let_def set_window_def)
  have notin: "my \<notin> set (remove1 my (inorder_rb (s_rsv_window_root w)))" using b(2) by simp
  have srt: "win_sorted (win ?w) (remove1 my (inorder_rb (s_rsv_window_root w)))"
    using win_sorted_remove1 [OF b(3), of my] notin
    by (subst win_sorted_cong [where g = "win w"]) (auto simp: wn)
  obtain rest where "inorder_rb (s_rsv_window_root w) = 0 # rest"
    using assms(1) by (auto simp: rsv_inv_def)
  then have hd: "\<exists>rest. remove1 my (inorder_rb (s_rsv_window_root w)) = 0 # rest" using assms(2) by simp
  have mem: "x \<in> set (remove1 my (inorder_rb (s_rsv_window_root w))) \<longleftrightarrow> x = 0 \<or> \<not> rsv_is_empty (win ?w x)" for x
    using b(2) b(5) [of x] assms(2) by (auto simp: set_remove1_eq wn rsv_is_empty_def)
  have z: "win ?w 0 = \<lparr>rsv_start = 0, rsv_end = 0\<rparr>" and d: "distinct (remove1 my (inorder_rb (s_rsv_window_root w)))"
    using b(2,6) assms(2) by (simp_all add: wn)
  show "rsv_inv ?w"
    unfolding rsv_inv_def root by (intro conjI allI) (rule ok d hd z srt mem)+
  show "rsv_frame my w ?w"
    unfolding rsv_window_remove_def Let_def by (rule rsv_frame_trans [OF rsv_frame_upd(2) rsv_frame_upd(3)])
  show "s_rsv_nodes ?w my = (s_rsv_nodes w my)\<lparr>rsv_window := \<lparr>rsv_start = 0, rsv_end = 0\<rparr>, rsv_alloc_hit := 0\<rparr>"
    by (simp add: rsv_window_remove_def Let_def set_window_def)
qed

lemma fits_gap_remove:
  "fits_gap w my a b \<Longrightarrow> rsv_inv w \<Longrightarrow> my \<noteq> 0 \<Longrightarrow> fits_gap (rsv_window_remove my w) my a b"
  using rsv_window_remove_inv(2,4) [of w my]
  by (auto simp: fits_gap_def rsv_frame_def dest: notin_set_remove1)

text \<open>A window that has no owner in the tree is set and linked in.\<close>

lemma link_window_ok:
  assumes inv: "rsv_inv w" and my: "my \<noteq> 0" "rsv_is_empty (win w my)" and ab: "a \<le> b" "0 < b"
    and gap: "fits_gap w my a b"
  shows "\<exists>w'. ext2_rsv_window_add my (set_window my a b w) = Some w' \<and> rsv_inv w' \<and> rsv_frame my w w' \<and>
    s_rsv_nodes w' my = s_rsv_nodes (set_window my a b w) my"
proof -
  let ?w = "set_window my a b w"
  note bs = rsv_inv_basic [OF inv]
  have notin: "my \<notin> set (inorder_rb (s_rsv_window_root w))" using bs(5) [of my] my by simp
  have wn: "win ?w x = (if x = my then \<lparr>rsv_start = a, rsv_end = b\<rparr> else win w x)" for x
    by (simp add: set_window_def)
  have srt: "win_sorted (win ?w) (inorder_rb (s_rsv_window_root ?w))"
    using bs(3) notin by (subst win_sorted_cong [where g = "win w"]) (auto simp: wn)
  have g: "fits_gap ?w my (rsv_start (win ?w my)) (rsv_end (win ?w my))"
    using gap by (simp add: fits_gap_def wn)
  obtain t xs ys where t: "ext2_rsv_window_add my ?w = Some (?w\<lparr>s_rsv_window_root := t\<rparr>)" "rb_ok t"
    "inorder_rb t = xs @ my # ys" "inorder_rb (s_rsv_window_root ?w) = xs @ ys" "win_sorted (win ?w) (xs @ my # ys)"
    using rsv_window_add_ok [of ?w my] bs(1) srt notin ab(1) g by (auto simp: wn)
  obtain rest where rest: "inorder_rb (s_rsv_window_root w) = 0 # rest" using inv by (auto simp: rsv_inv_def)
  have xs: "xs \<noteq> []"
  proof
    assume "xs = []"
    then have "0 \<in> set ys" using bs(4) t(4) by simp
    then have "rsv_end (win ?w my) < rsv_start (win ?w 0)" using t(5) \<open>xs = []\<close> by (auto simp: win_sorted_Cons)
    then show False using bs(6) my by (simp add: wn)
  qed
  let ?w' = "?w\<lparr>s_rsv_window_root := t\<rparr>"
  have wn': "win ?w' = win ?w" by (simp add: fun_eq_iff)
  have "distinct (xs @ my # ys)" using bs(2) notin t(4) by auto
  moreover have "\<exists>rest. xs @ my # ys = 0 # rest" using xs rest t(4) by (cases xs) auto
  moreover have "x \<in> set (xs @ my # ys) \<longleftrightarrow> x = 0 \<or> \<not> rsv_is_empty (win ?w x)" for x
    using bs(5) [of x] t(4) ab by (auto simp: wn rsv_is_empty_def)
  moreover have "win ?w 0 = \<lparr>rsv_start = 0, rsv_end = 0\<rparr>" using bs(6) my by (simp add: wn)
  ultimately have "rsv_inv ?w'"
    unfolding rsv_inv_def wn' using t(2,3,5) by simp
  moreover have "rsv_frame my w ?w'" by (rule rsv_frame_trans [OF rsv_frame_upd(2) rsv_frame_upd(3)])
  ultimately show ?thesis using t(1) by auto
qed

text \<open>A window moved within its place of the order.\<close>

lemma move_window_ok:
  assumes inv: "rsv_inv w" and my: "my \<noteq> 0" and ab: "a \<le> b" "0 < b"
    and ord: "inorder_rb (s_rsv_window_root w) = us @ my # vs"
      "\<forall>y\<in>set us. rsv_end (win w y) < a" "\<forall>y\<in>set vs. b < rsv_start (win w y)"
    and w': "s_rsv_window_root w' = s_rsv_window_root w" "\<And>x. x \<noteq> my \<Longrightarrow> win w' x = win w x"
      "win w' my = \<lparr>rsv_start = a, rsv_end = b\<rparr>"
  shows "rsv_inv w'"
proof -
  note bs = rsv_inv_basic [OF inv]
  have d: "my \<notin> set us" "my \<notin> set vs" using bs(2) ord(1) by auto
  have "win_sorted (win w) us" "win_sorted (win w) vs"
    "\<forall>x\<in>set us. \<forall>y\<in>set vs. rsv_end (win w x) < rsv_start (win w y)"
    using bs(3) unfolding ord(1) by (auto simp: win_sorted_append win_sorted_Cons)
  moreover have eq: "\<forall>x\<in>set us. win w' x = win w x" "\<forall>x\<in>set vs. win w' x = win w x" using d w'(2) by metis+
  moreover have "win_sorted (win w') us = win_sorted (win w) us" "win_sorted (win w') vs = win_sorted (win w) vs"
    using eq win_sorted_cong [of us "win w'" "win w"] win_sorted_cong [of vs "win w'" "win w"] by simp_all
  ultimately have srt: "win_sorted (win w') (us @ my # vs)"
    using ord(2,3) ab by (auto simp: win_sorted_append win_sorted_Cons w'(3))
  have mem: "x \<in> set (us @ my # vs) \<longleftrightarrow> x = 0 \<or> \<not> rsv_is_empty (win w' x)" for x
    using bs(5) [of x] w'(2) [of x] w'(3) ab(2) my ord(1) by (cases "x = my") (auto simp: rsv_is_empty_def)
  have z: "win w' 0 = \<lparr>rsv_start = 0, rsv_end = 0\<rparr>" using w'(2) [of 0] bs(6) my by simp
  have hd: "\<exists>rest. us @ my # vs = 0 # rest" using inv ord(1) by (auto simp: rsv_inv_def)
  show ?thesis
    unfolding rsv_inv_def w'(1) using bs(1,2) srt mem z hd unfolding ord(1) by (intro conjI allI)
qed

lemma find_next_reservable_window_ok:
  assumes inv: "rsv_inv w" and my: "my \<noteq> 0" and sz: "0 < rsv_goal_size (s_rsv_nodes w my)"
    and hd: "\<And>x. search_head = Some x \<Longrightarrow> x \<in> set (inorder_rb (s_rsv_window_root w))"
  shows "\<exists>ok w'. find_next_reservable_window search_head my w start lastb = Some (ok, w') \<and> rsv_inv w' \<and>
    rsv_frame my w w' \<and> rsv_goal_size (s_rsv_nodes w' my) = rsv_goal_size (s_rsv_nodes w my) \<and>
    (\<not> ok \<longrightarrow> w' = w) \<and>
    (ok \<longrightarrow> \<not> rsv_is_empty (win w' my) \<and> start \<le> rsv_start (win w' my) \<and> rsv_start (win w' my) \<le> lastb \<and>
       rsv_start (win w' my) \<le> rsv_end (win w' my))"
proof (cases search_head)
  case None
  then show ?thesis using inv by (auto simp: find_next_reservable_window_def)
next
  case (Some rsv)
  define sz' where "sz' = rsv_goal_size (s_rsv_nodes w my)"
  let ?L = "inorder_rb (s_rsv_window_root w)"
  note bs = rsv_inv_basic [OF inv]
  obtain xs ys where L: "?L = xs @ rsv # ys" using hd [OF Some] by (meson split_list)
  then have "length ys < Suc (length ?L)" by simp
  from reservable_walk_ok [OF L bs(2,3) this, of sz' lastb start]
  obtain res where walk: "reservable_walk (Suc (length ?L)) w sz' lastb start rsv = Some res"
    and res: "\<And>a prev. res = Some (a, prev) \<Longrightarrow> start \<le> a \<and> a \<le> lastb \<and>
       (\<exists>us vs. ?L = us @ prev # vs \<and> (\<forall>y\<in>set (us @ [prev]). rsv_end (win w y) < a) \<and>
         (\<forall>y\<in>set vs. a + sz' \<le> rsv_start (win w y)))" by blast
  show ?thesis
  proof (cases res)
    case None
    then show ?thesis using Some inv walk by (auto simp: find_next_reservable_window_def sz'_def Let_def)
  next
    case (Some ap)
    obtain a prev where ap: "res = Some (a, prev)" using Some by (cases ap) auto
    obtain us vs where uv: "?L = us @ prev # vs" "\<forall>y\<in>set (us @ [prev]). rsv_end (win w y) < a"
      "\<forall>y\<in>set vs. a + sz' \<le> rsv_start (win w y)" and a: "start \<le> a" "a \<le> lastb"
      using res [OF ap] by blast
    have pos: "a \<le> a + sz' - 1" "0 < a + sz' - 1 \<or> prev = my" "0 < a" using sz uv(2) by (auto simp: sz'_def)
    have b: "0 < a + sz' - 1" using pos(3) sz by (auto simp: sz'_def)
    show ?thesis
    proof (cases "prev = my")
      case True
      have "rsv_inv (set_window my a (a + sz' - 1) w)"
        using uv b pos sz True my by (intro move_window_ok [OF inv my, of a "a + sz' - 1" us vs])
          (auto simp: set_window_def sz'_def)
      moreover have "find_next_reservable_window search_head my w start lastb =
          Some (True, set_window my a (a + sz' - 1) w)"
        using \<open>search_head = Some rsv\<close> walk ap True
        by (simp add: find_next_reservable_window_def sz'_def [symmetric] Let_def del: reservable_walk.simps)
      ultimately show ?thesis
        using a b pos by (auto simp: set_window_def sz'_def rsv_is_empty_def)
    next
      case False
      define w1 where "w1 = (if \<not> rsv_is_empty (win w my) then rsv_window_remove my w else w)"
      have gap: "fits_gap w my a (a + sz' - 1)"
        unfolding fits_gap_def uv(1) using uv(2,3) sz by (auto simp: sz'_def)
      have w1: "rsv_inv w1" "rsv_is_empty (win w1 my)" "rsv_frame my w w1" "fits_gap w1 my a (a + sz' - 1)"
        "rsv_goal_size (s_rsv_nodes w1 my) = sz'"
        using inv my gap rsv_window_remove_inv [OF inv my] fits_gap_remove [OF gap inv my]
        by (auto simp: w1_def rsv_is_empty_def sz'_def)
      from link_window_ok [OF w1(1) my w1(2) pos(1) b w1(4)] obtain w' where
        w': "ext2_rsv_window_add my (set_window my a (a + sz' - 1) w1) = Some w'" "rsv_inv w'"
          "rsv_frame my w1 w'" "s_rsv_nodes w' my = s_rsv_nodes (set_window my a (a + sz' - 1) w1) my" by blast
      have "find_next_reservable_window search_head my w start lastb = Some (True, w')"
        using \<open>search_head = Some rsv\<close> walk ap False w'(1)
        by (simp add: find_next_reservable_window_def sz'_def [symmetric] Let_def w1_def del: reservable_walk.simps)
      then show ?thesis
        using w' w1 a b pos rsv_frame_trans [OF w1(3) w'(3)]
        by (auto simp: set_window_def sz'_def rsv_is_empty_def)
    qed
  qed
qed

lemma drop_window_ok:
  assumes "rsv_inv w" "my \<noteq> 0"
  shows "rsv_inv (drop_window my w)" "rsv_frame my w (drop_window my w)"
    "rsv_goal_size (s_rsv_nodes (drop_window my w) my) = rsv_goal_size (s_rsv_nodes w my)"
  using assms rsv_window_remove_inv [OF assms] by (auto simp: drop_window_def)

text \<open>What a successful reservation guarantees: a free block of the group inside the window.\<close>

definition has_free :: "nat \<Rightarrow> nat \<Rightarrow> mem \<Rightarrow> ext2_reserve_window \<Rightarrow> bool" where
  "has_free first lastb m r \<longleftrightarrow>
     (\<exists>f. \<not> ext2_test_bit m f \<and> first + f \<le> lastb \<and> rsv_start r \<le> first + f \<and> first + f \<le> rsv_end r)"

lemma reservation_retry_ok:
  assumes "rsv_inv w" "my \<noteq> 0" "0 < rsv_goal_size (s_rsv_nodes w my)"
    and "\<And>x. search_head = Some x \<Longrightarrow> x \<in> set (inorder_rb (s_rsv_window_root w))"
    and "first \<le> start" "Suc lastb - start < n"
  shows "\<exists>ok w'. reservation_retry n first lastb m search_head start my w = Some (ok, w') \<and> rsv_inv w' \<and>
    rsv_frame my w w' \<and> rsv_goal_size (s_rsv_nodes w' my) = rsv_goal_size (s_rsv_nodes w my) \<and>
    (ok \<longrightarrow> start \<le> rsv_start (win w' my) \<and> rsv_start (win w' my) \<le> lastb \<and> \<not> rsv_is_empty (win w' my) \<and>
       has_free first lastb m (win w' my))"
  using assms
proof (induction n arbitrary: w search_head start)
  case (Suc n)
  obtain ok w1 where f: "find_next_reservable_window search_head my w start lastb = Some (ok, w1)" "rsv_inv w1"
    "rsv_frame my w w1" "rsv_goal_size (s_rsv_nodes w1 my) = rsv_goal_size (s_rsv_nodes w my)"
    "ok \<Longrightarrow> \<not> rsv_is_empty (win w1 my) \<and> start \<le> rsv_start (win w1 my) \<and> rsv_start (win w1 my) \<le> lastb \<and>
       rsv_start (win w1 my) \<le> rsv_end (win w1 my)"
    using find_next_reservable_window_ok [OF Suc.prems(1-3), of search_head start lastb] Suc.prems(4) by blast
  note dr = drop_window_ok [OF f(2) Suc.prems(2)]
  show ?case
  proof (cases ok)
    case False
    then show ?thesis
      using f(1,4) dr rsv_frame_trans [OF f(3) dr(2)] by auto
  next
    case True
    define a where "a = rsv_start (win w1 my)"
    define fr where "fr = bitmap_search_next_usable_block (int a - int first) m (int lastb - int first + 1)"
    have a: "start \<le> a" "a \<le> lastb" "a \<le> rsv_end (win w1 my)" "first \<le> a"
      using f(5) [OF True] Suc.prems(5) by (auto simp: a_def)
    have fr: "fr = - 1 \<or> int a - int first \<le> fr \<and> fr < int lastb - int first + 1 \<and> \<not> ext2_test_bit m (nat fr)"
      using bitmap_search_spec [of "int a - int first" m "int lastb - int first + 1"] a(4)
      by (auto simp: fr_def)
    have unf: "reservation_retry (Suc n) first lastb m search_head start my w =
      (if fr < 0 then Some (False, drop_window my w1)
       else if nat fr + first \<ge> a \<and> nat fr + first \<le> rsv_end (win w1 my) then Some (True, w1)
       else reservation_retry n first lastb m (Some my) (nat fr + first) my w1)"
      using f(1) True by (simp add: a_def fr_def Let_def)
    consider "fr < 0" | "0 \<le> fr" "nat fr + first \<le> rsv_end (win w1 my)" | "0 \<le> fr" "rsv_end (win w1 my) < nat fr + first"
      by linarith
    then show ?thesis
    proof cases
      case 1
      then show ?thesis using unf f(4) dr rsv_frame_trans [OF f(3) dr(2)] by auto
    next
      case 2
      then have ge: "a \<le> nat fr + first" "nat fr + first \<le> lastb" "\<not> ext2_test_bit m (nat fr)" using fr by auto
      have "has_free first lastb m (win w1 my)"
        unfolding has_free_def a_def [symmetric] using ge 2 by (intro exI [of _ "nat fr"]) (simp add: add.commute)
      then show ?thesis using unf 2 ge f(2-4) f(5) [OF True] by auto
    next
      case 3
      then have lt: "nat fr + first \<le> lastb" "start < nat fr + first" using fr a by auto
      have "my \<in> set (inorder_rb (s_rsv_window_root w1))"
        using rsv_inv_basic(5) [OF f(2), of my] f(5) [OF True] by simp
      moreover have "Suc lastb - (nat fr + first) < n" using Suc.prems(6) lt by linarith
      ultimately obtain ok' w' where "reservation_retry n first lastb m (Some my) (nat fr + first) my w1 = Some (ok', w')"
        "rsv_inv w'" "rsv_frame my w1 w'" "rsv_goal_size (s_rsv_nodes w' my) = rsv_goal_size (s_rsv_nodes w1 my)"
        "ok' \<longrightarrow> nat fr + first \<le> rsv_start (win w' my) \<and> rsv_start (win w' my) \<le> lastb \<and>
          \<not> rsv_is_empty (win w' my) \<and> has_free first lastb m (win w' my)"
        using Suc.IH [OF f(2) Suc.prems(2), of "Some my" "nat fr + first"] f(4) Suc.prems(3,6) lt by auto
      then show ?thesis
        using unf 3 f(4) lt rsv_frame_trans [OF f(3)] by auto
    qed
  qed
qed simp

lemma search_walk_mem:
  "search_walk w goal t y = Inl z \<Longrightarrow> z \<in> set (inorder_rb t)"
  "search_walk w goal t y = Inr z \<Longrightarrow> z \<in> insert y (set (inorder_rb t))"
  by (induction w goal t y rule: search_walk.induct) (auto split: if_splits)

lemma search_reserve_window_mem:
  assumes "rsv_inv w" "search_reserve_window w goal = Some x"
  shows "x \<in> set (inorder_rb (s_rsv_window_root w))"
proof (cases "s_rsv_window_root w")
  case RbE
  then show ?thesis using assms by (simp add: search_reserve_window_def)
next
  case (RbN c l y r)
  let ?t = "RbN c l y r"
  have prev: "z' \<in> set (inorder_rb ?t)" if z: "z \<in> set (inorder_rb ?t)" and p: "rb_prev ?t z = Some z'" for z z'
  proof -
    obtain xs ys where L: "inorder_rb ?t = xs @ z # ys" using z by (meson split_list)
    have "distinct (inorder_rb ?t)" using rsv_inv_basic(2) [OF assms(1)] RbN by simp
    from rb_prev_order [OF L this] p show ?thesis
      unfolding L by (auto split: if_splits)
  qed
  show ?thesis
    using assms(2) search_walk_mem [where w = w and goal = goal and t = ?t and y = y] prev
    unfolding search_reserve_window_def RbN
    by (auto split: sum.splits if_splits simp del: search_walk.simps)
qed

lemma rsv_inv_cong:
  assumes "s_rsv_window_root w' = s_rsv_window_root w" "\<And>x. win w' x = win w x"
  shows "rsv_inv w' = rsv_inv w"
proof -
  have "win_sorted (win w') xs = win_sorted (win w) xs" for xs
    using assms(2) by (intro win_sorted_cong) simp
  then show ?thesis unfolding rsv_inv_def by (simp only: assms)
qed

lemma rsv_inv_upd_size [simp]:
  "rsv_inv (upd_rsv my (\<lambda>n. n\<lparr>rsv_goal_size := v\<rparr>) w) = rsv_inv w"
  "rsv_inv (upd_rsv my (\<lambda>n. n\<lparr>rsv_alloc_hit := f n\<rparr>) w) = rsv_inv w"
  by (rule rsv_inv_cong; simp)+

lemma alloc_new_reservation_ok:
  fixes s grp
  defines "first \<equiv> ext2_group_first_block_no s grp"
  defines "lastb \<equiv> first + (s_blocks_per_group (ks_sbi s) - 1)"
  assumes inv: "rsv_inv w" and my: "my \<noteq> 0" and sz: "0 < rsv_goal_size (s_rsv_nodes w my)"
    and bpg: "0 < s_blocks_per_group (ks_sbi s)"
  shows "\<exists>ok w'. alloc_new_reservation my grp_goal s grp m w = Some (ok, w') \<and> rsv_inv w' \<and> rsv_frame my w w' \<and>
    0 < rsv_goal_size (s_rsv_nodes w' my) \<and>
    (ok \<longrightarrow> (if grp_goal < 0 then first else nat grp_goal + first) \<le> rsv_start (win w' my) \<and>
       rsv_start (win w' my) \<le> lastb \<and> \<not> rsv_is_empty (win w' my) \<and> has_free first lastb m (win w' my))"
proof -
  define start where "start = (if grp_goal < 0 then first else nat grp_goal + first)"
  let ?c = "\<not> rsv_is_empty (win w my) \<and> rsv_alloc_hit (s_rsv_nodes w my) > (rsv_end (win w my) - rsv_start (win w my) + 1) div 2"
  define w1 where "w1 = (if ?c then upd_rsv my (\<lambda>n. n\<lparr>rsv_goal_size := min (rsv_goal_size (s_rsv_nodes w my) * 2) 1027\<rparr>) w else w)"
  have w1: "rsv_inv w1" "0 < rsv_goal_size (s_rsv_nodes w1 my)" "rsv_frame my w w1"
    using inv sz by (simp_all add: w1_def)
  have "Suc lastb - start < Suc (s_blocks_per_group (ks_sbi s))" "first \<le> start"
    using bpg by (auto simp: lastb_def start_def)
  then obtain ok w' where r: "reservation_retry (Suc (s_blocks_per_group (ks_sbi s))) first lastb m
      (search_reserve_window w1 start) start my w1 = Some (ok, w')" "rsv_inv w'" "rsv_frame my w1 w'"
    "rsv_goal_size (s_rsv_nodes w' my) = rsv_goal_size (s_rsv_nodes w1 my)"
    "ok \<longrightarrow> start \<le> rsv_start (win w' my) \<and> rsv_start (win w' my) \<le> lastb \<and> \<not> rsv_is_empty (win w' my) \<and>
      has_free first lastb m (win w' my)"
    using reservation_retry_ok [OF w1(1) my w1(2), of "search_reserve_window w1 start" first start lastb
        "Suc (s_blocks_per_group (ks_sbi s))" m] search_reserve_window_mem [OF w1(1)] by blast
  have eq: "alloc_new_reservation my grp_goal s grp m w =
    (if \<not> rsv_is_empty (win w my) \<and> rsv_start (win w my) \<le> lastb \<and> rsv_end (win w my) > lastb \<and> start \<ge> rsv_start (win w my)
     then Some (False, w) else Some (ok, w'))"
    unfolding alloc_new_reservation_def Let_def first_def [symmetric] lastb_def [symmetric] start_def [symmetric]
      w1_def [symmetric] r(1) by (rule refl)
  show ?thesis
    using r w1 rsv_frame_trans [OF w1(3) r(3)] inv sz unfolding eq start_def [symmetric] by auto
qed

lemma try_to_extend_ok:
  assumes inv: "rsv_inv w" and my: "my \<noteq> 0" "\<not> rsv_is_empty (win w my)"
  shows "rsv_inv (try_to_extend_reservation locked my sz w)"
    "rsv_frame my w (try_to_extend_reservation locked my sz w)"
    "rsv_start (win (try_to_extend_reservation locked my sz w) my) = rsv_start (win w my)"
    "rsv_end (win w my) \<le> rsv_end (win (try_to_extend_reservation locked my sz w) my)"
    "rsv_goal_size (s_rsv_nodes (try_to_extend_reservation locked my sz w) my) = rsv_goal_size (s_rsv_nodes w my)"
proof -
  note bs = rsv_inv_basic [OF inv]
  let ?L = "inorder_rb (s_rsv_window_root w)" and ?a = "rsv_start (win w my)" and ?e = "rsv_end (win w my)"
  have "my \<in> set ?L" using bs(5) my by simp
  then obtain xs ys where L: "?L = xs @ my # ys" by (meson split_list)
  have nx: "rb_next (s_rsv_window_root w) my = (if ys = [] then None else Some (hd ys))"
    using L bs(2) by (rule rb_next_order)
  have srt: "?a \<le> ?e" "\<forall>y\<in>set xs. rsv_end (win w y) < ?a" "\<forall>y\<in>set ys. ?e < rsv_start (win w y)"
    "\<forall>y\<in>set ys. rsv_start (win w (hd ys)) \<le> rsv_start (win w y)"
    using bs(3) unfolding L by (cases ys; auto simp: win_sorted_append win_sorted_Cons)+
  have ext: "\<exists>v. ?e \<le> v \<and> (\<forall>y\<in>set ys. v < rsv_start (win w y)) \<and> try_to_extend_reservation True my sz w =
      upd_rsv my (\<lambda>n. n\<lparr>rsv_window := (rsv_window n)\<lparr>rsv_end := v\<rparr>\<rparr>) w"
  proof (cases "ys = []")
    case True
    then show ?thesis using nx by (intro exI [of _ "?e + sz"]) (simp add: try_to_extend_reservation_def Let_def)
  next
    case False
    let ?v = "if rsv_start (win w (hd ys)) - ?e - 1 \<ge> sz then ?e + sz else rsv_start (win w (hd ys)) - 1"
    have "?e < rsv_start (win w (hd ys))" using srt(3) False by simp
    then have "?e \<le> ?v" "?v < rsv_start (win w (hd ys))" by auto
    then show ?thesis
      using nx False srt(4) by (intro exI [of _ ?v]) (force simp: try_to_extend_reservation_def Let_def)
  qed
  then obtain v where v: "?e \<le> v" "\<forall>y\<in>set ys. v < rsv_start (win w y)" "try_to_extend_reservation True my sz w =
      upd_rsv my (\<lambda>n. n\<lparr>rsv_window := (rsv_window n)\<lparr>rsv_end := v\<rparr>\<rparr>) w" by blast
  have "0 < v" using v(1) my(2) by (simp add: rsv_is_empty_def)
  then have "rsv_inv (upd_rsv my (\<lambda>n. n\<lparr>rsv_window := (rsv_window n)\<lparr>rsv_end := v\<rparr>\<rparr>) w)"
    using srt v by (intro move_window_ok [OF inv my(1) _ _ L, of ?a v]) auto
  then show "rsv_inv (try_to_extend_reservation locked my sz w)"
    "rsv_frame my w (try_to_extend_reservation locked my sz w)"
    "rsv_start (win (try_to_extend_reservation locked my sz w) my) = rsv_start (win w my)"
    "rsv_end (win w my) \<le> rsv_end (win (try_to_extend_reservation locked my sz w) my)"
    "rsv_goal_size (s_rsv_nodes (try_to_extend_reservation locked my sz w) my) = rsv_goal_size (s_rsv_nodes w my)"
    using inv v by (cases locked; simp add: try_to_extend_reservation_def [of False])+
qed

text \<open>The blocks an allocation in a group claims.\<close>

definition claimed :: "mem \<Rightarrow> nat \<Rightarrow> nat \<Rightarrow> int \<Rightarrow> nat \<Rightarrow> mem \<Rightarrow> bool" where
  "claimed m bpg count r num m' \<longleftrightarrow>
     0 \<le> r \<and> r + int num \<le> int bpg \<and> 1 \<le> num \<and> num \<le> max 1 count \<and>
     (\<forall>i. r \<le> int i \<longrightarrow> int i < r + int num \<longrightarrow> \<not> ext2_test_bit m i) \<and>
     (\<forall>i. ext2_test_bit m' i \<longleftrightarrow> ext2_test_bit m i \<or> r \<le> int i \<and> int i < r + int num)"

lemma outcome_claimed:
  "alloc_outcome m start lim count r num m' \<Longrightarrow> 0 \<le> start \<Longrightarrow> lim \<le> int bpg \<Longrightarrow> 0 \<le> r \<Longrightarrow> claimed m bpg count r num m'"
  by (auto simp: alloc_outcome_def claimed_def)

lemma claimed_free_count:
  assumes "claimed m bpg count r num m'"
  shows "card (bm.free_bits m' bpg) + num = card (bm.free_bits m bpg)"
proof -
  have "alloc_outcome m 0 (int bpg) count r num m'" using assms by (auto simp: claimed_def alloc_outcome_def)
  then show ?thesis by (rule outcome_free_count) simp_all
qed

definition in_window :: "ext2_reserve_window \<Rightarrow> int \<Rightarrow> nat \<Rightarrow> bool" where
  "in_window r b num \<longleftrightarrow> \<not> rsv_is_empty r \<and> int (rsv_start r) \<le> b \<and> b + int num \<le> int (rsv_end r) + 1"

text \<open>An attempt in a window that touches the group never fails with a \<open>BUG\<close>.\<close>

lemma try_in_window:
  fixes s grp
  defines "first \<equiv> ext2_group_first_block_no s grp" and "bpg \<equiv> s_blocks_per_group (ks_sbi s)"
  assumes "rsv_start r < first + bpg" "goal < int bpg" "\<not> rsv_is_empty r"
  shows "\<exists>x num m'. ext2_try_to_allocate s grp m goal count (Some r) = Some ((x, num), m') \<and>
    (if x < 0 then m' = m else claimed m bpg count x num m' \<and> in_window r (int first + x) num) \<and>
    (x < 0 \<longrightarrow> first \<le> rsv_start r \<longrightarrow> goal < 0 \<or> goal + int first = int (rsv_start r) \<longrightarrow>
       \<not> has_free first (first + (bpg - 1)) m r)"
proof -
  obtain start lim g where rg: "alloc_range s grp goal (Some r) = (start, lim, g)" by (metis prod_cases3)
  note ok = alloc_range_ok [OF rg assms(4) [unfolded bpg_def], folded bpg_def]
  have le: "start \<le> int bpg"
    using rg assms(3,4) by (auto simp: alloc_range_def Let_def first_def bpg_def split: if_splits)
  obtain x num m' where t: "ext2_try_to_allocate s grp m goal count (Some r) = Some ((x, num), m')"
    using le by (cases "alloc_repeat True m start lim g count") (auto simp: ext2_try_to_allocate_def rg bpg_def)
  note out = try_to_allocate_outcome [OF t rg assms(4) [unfolded bpg_def]]
  have "\<not> has_free first (first + (bpg - 1)) m r"
    if "x < 0" "first \<le> rsv_start r" "goal < 0 \<or> goal + int first = int (rsv_start r)"
  proof
    assume "has_free first (first + (bpg - 1)) m r"
    then obtain f where f: "\<not> ext2_test_bit m f" "first + f \<le> first + (bpg - 1)" "rsv_start r \<le> first + f"
      "first + f \<le> rsv_end r" by (auto simp: has_free_def)
    have "0 < bpg" using assms(3) that(2) by linarith
    then have "start \<le> int f" "int f < lim"
      using rg that(2,3) f(2-4) by (auto simp: alloc_range_def Let_def first_def bpg_def split: if_splits)
    then show False using out that(1) f(1) by (auto simp: alloc_outcome_def)
  qed
  moreover have "int (rsv_start r) \<le> int first + start" "int first + lim \<le> int (rsv_end r) + 1"
    using rg by (auto simp: alloc_range_def Let_def first_def bpg_def split: if_splits)
  then have "if x < 0 then m' = m else claimed m bpg count x num m' \<and> in_window r (int first + x) num"
    using out outcome_claimed [OF out ok(1,2)] assms(5) by (auto simp: alloc_outcome_def in_window_def)
  ultimately show ?thesis using t by blast
qed

lemma with_rsv_window_ok:
  fixes s grp
  defines "first \<equiv> ext2_group_first_block_no s grp" and "bpg \<equiv> s_blocks_per_group (ks_sbi s)"
  assumes inv: "rsv_inv w" and my: "my \<noteq> 0" and sz: "0 < rsv_goal_size (s_rsv_nodes w my)"
    and bpg: "0 < bpg" and goal: "grp_goal < int bpg"
  shows "\<exists>res w'. with_rsv_window s grp m locked grp_goal ret my count w = Some (res, w') \<and> rsv_inv w' \<and>
    rsv_frame my w w' \<and> 0 < rsv_goal_size (s_rsv_nodes w' my) \<and>
    (\<forall>g. res = Some g \<longrightarrow> g < int bpg \<and> rsv_start (win w' my) \<le> first + (bpg - 1) \<and> first \<le> rsv_end (win w' my) \<and>
      \<not> rsv_is_empty (win w' my) \<and>
      (ret < 0 \<longrightarrow> first \<le> rsv_start (win w' my) \<and> (g < 0 \<or> g + int first = int (rsv_start (win w' my))) \<and>
         has_free first (first + (bpg - 1)) m (win w' my)))"
proof (cases "rsv_is_empty (win w my) \<or> ret < 0 \<or> \<not> goal_in_my_reservation s (win w my) grp_goal grp")
  case True
  define w1 where "w1 = (if rsv_goal_size (s_rsv_nodes w my) < count
                  then upd_rsv my (\<lambda>n. n\<lparr>rsv_goal_size := count\<rparr>) w else w)"
  have w1: "rsv_inv w1" "0 < rsv_goal_size (s_rsv_nodes w1 my)" "rsv_frame my w w1"
    using inv sz by (auto simp: w1_def)
  obtain ok w2 where a: "alloc_new_reservation my grp_goal s grp m w1 = Some (ok, w2)" "rsv_inv w2" "rsv_frame my w1 w2"
    "0 < rsv_goal_size (s_rsv_nodes w2 my)"
    and a5: "ok \<longrightarrow> (if grp_goal < 0 then first else nat grp_goal + first) \<le> rsv_start (win w2 my) \<and>
       rsv_start (win w2 my) \<le> first + (bpg - 1) \<and> \<not> rsv_is_empty (win w2 my) \<and> has_free first (first + (bpg - 1)) m (win w2 my)"
    using alloc_new_reservation_ok [OF w1(1) my w1(2), of s grp_goal grp m] bpg unfolding first_def bpg_def by blast
  have eq: "with_rsv_window s grp m locked grp_goal ret my count w = (if ok then
      Some (Some (if goal_in_my_reservation s (win w2 my) grp_goal grp then grp_goal else - 1), w2) else Some (None, w2))"
    using True a(1) by (simp add: with_rsv_window_def w1_def [symmetric] Let_def split: bool.splits)
  show ?thesis
  proof (cases ok)
    case False
    then show ?thesis using eq a rsv_frame_trans [OF w1(3) a(3)] by simp
  next
    case ok: True
    have "has_free first (first + (bpg - 1)) m (win w2 my)" using a5 ok by simp
    then have "first \<le> rsv_end (win w2 my)" by (auto simp: has_free_def)
    moreover have "grp_goal < 0 \<or> grp_goal + int first = int (rsv_start (win w2 my))"
      if "goal_in_my_reservation s (win w2 my) grp_goal grp"
      using that a5 ok by (auto simp: goal_in_my_reservation_def Let_def first_def split: if_splits)
    moreover have "first \<le> rsv_start (win w2 my)" using a5 ok by (auto split: if_splits)
    ultimately show ?thesis
      using eq ok a(2-4) a5 ok rsv_frame_trans [OF w1(3) a(3)] goal by auto
  qed
next
  case False
  then have ne: "\<not> rsv_is_empty (win w my)" and ret: "\<not> ret < 0"
    and gi: "rsv_start (win w my) \<le> first + (bpg - 1)" "first \<le> rsv_end (win w my)"
    using bpg by (auto simp: goal_in_my_reservation_def Let_def first_def bpg_def split: if_splits)
  have "\<exists>w'. with_rsv_window s grp m locked grp_goal ret my count w = Some (Some grp_goal, w') \<and> rsv_inv w' \<and>
      rsv_frame my w w' \<and> 0 < rsv_goal_size (s_rsv_nodes w' my) \<and> rsv_start (win w' my) = rsv_start (win w my) \<and>
      rsv_end (win w my) \<le> rsv_end (win w' my)"
    using False inv sz try_to_extend_ok [OF inv my ne, of locked] by (auto simp: with_rsv_window_def Let_def)
  then show ?thesis using ret gi goal ne by (fastforce simp: rsv_is_empty_def)
qed

text \<open>One round of the loop, and two rounds from the start.\<close>

lemma with_rsv_loop_ok:
  fixes s grp
  defines "bpg \<equiv> s_blocks_per_group (ks_sbi s)"
  assumes "rsv_inv w" "my \<noteq> 0" "0 < rsv_goal_size (s_rsv_nodes w my)" "0 < bpg" "grp_goal < int bpg"
    and "ret < 0 \<and> 0 < n \<or> 1 < n"
  shows "\<exists>x num m' w'. with_rsv_loop n s grp m locked grp_goal ret my count w = Some ((x, num), m', w') \<and>
    rsv_inv w' \<and> rsv_frame my w w' \<and> 0 < rsv_goal_size (s_rsv_nodes w' my) \<and>
    (if x < 0 then x = - 1 \<and> num = count \<and> m' = m
     else claimed m bpg count x num m' \<and> in_window (win w' my) (int (ext2_group_first_block_no s grp) + x) num)"
  using assms(2-)
proof (induction n arbitrary: w grp_goal ret)
  case (Suc n)
  let ?first = "ext2_group_first_block_no s grp"
  obtain res w2 where w2: "with_rsv_window s grp m locked grp_goal ret my count w = Some (res, w2)" "rsv_inv w2"
    "rsv_frame my w w2" "0 < rsv_goal_size (s_rsv_nodes w2 my)"
    and g: "\<And>g. res = Some g \<Longrightarrow> g < int bpg \<and> rsv_start (win w2 my) \<le> ?first + (bpg - 1) \<and> ?first \<le> rsv_end (win w2 my) \<and>
      \<not> rsv_is_empty (win w2 my) \<and>
      (ret < 0 \<longrightarrow> ?first \<le> rsv_start (win w2 my) \<and> (g < 0 \<or> g + int ?first = int (rsv_start (win w2 my))) \<and>
         has_free ?first (?first + (bpg - 1)) m (win w2 my))"
    using with_rsv_window_ok [OF Suc.prems(1,2,3), of s grp_goal grp m locked ret count] Suc.prems(4,5)
    unfolding bpg_def by blast
  show ?case
  proof (cases res)
    case None
    then show ?thesis using w2 by (simp add: Let_def)
  next
    case (Some goal)
    note g = g [OF Some]
    have "rsv_start (win w2 my) < ?first + bpg" using g Suc.prems(4) by linarith
    then obtain x num m' where t: "ext2_try_to_allocate s grp m goal count (Some (win w2 my)) = Some ((x, num), m')"
      "if x < 0 then m' = m else claimed m bpg count x num m' \<and> in_window (win w2 my) (int ?first + x) num"
      "x < 0 \<longrightarrow> ?first \<le> rsv_start (win w2 my) \<longrightarrow> goal < 0 \<or> goal + int ?first = int (rsv_start (win w2 my)) \<longrightarrow>
       \<not> has_free ?first (?first + (bpg - 1)) m (win w2 my)"
      using try_in_window [of "win w2 my" s grp goal m count] g unfolding bpg_def by blast
    have nb: "\<not> (rsv_start (win w2 my) > ?first + (s_blocks_per_group (ks_sbi s) - 1) \<or> rsv_end (win w2 my) < ?first)"
      using g by (auto simp: bpg_def)
    show ?thesis
    proof (cases "x < 0")
      case False
      then have "with_rsv_loop (Suc n) s grp m locked grp_goal ret my count w =
          Some ((x, num), m', upd_rsv my (\<lambda>n. n\<lparr>rsv_alloc_hit := rsv_alloc_hit n + num\<rparr>) w2)"
        using w2(1) Some t(1) nb by (simp add: Let_def)
      then show ?thesis using w2 t(2) False rsv_frame_trans [OF w2(3) rsv_frame_upd(1)] by auto
    next
      case True
      then have ret: "\<not> ret < 0" "1 < Suc n" using g t(3) Suc.prems(6) by auto
      have "with_rsv_loop (Suc n) s grp m locked grp_goal ret my count w = with_rsv_loop n s grp m locked goal x my count w2"
        using w2(1) Some t(1,2) True nb by (simp add: Let_def)
      moreover obtain y num' m'' w' where "with_rsv_loop n s grp m locked goal x my count w2 = Some ((y, num'), m'', w')"
        "rsv_inv w'" "rsv_frame my w2 w'" "0 < rsv_goal_size (s_rsv_nodes w' my)"
        "if y < 0 then y = - 1 \<and> num' = count \<and> m'' = m
         else claimed m bpg count y num' m'' \<and> in_window (win w' my) (int ?first + y) num'"
        using Suc.IH [OF w2(2) Suc.prems(2) w2(4) Suc.prems(4), of goal x] g True ret by auto
      ultimately show ?thesis using rsv_frame_trans [OF w2(3)] by auto
    qed
  qed
qed simp

text \<open>A run inside one window of the invariant is outside every other window.\<close>

lemma in_window_exclusive:
  assumes "rsv_inv w" "in_window (win w my) b num" "my \<noteq> 0" "y \<noteq> my" "b \<le> int k" "int k < b + int num"
  shows "\<not> (rsv_start (win w y) \<le> k \<and> k \<le> rsv_end (win w y))"
proof
  assume k: "rsv_start (win w y) \<le> k \<and> k \<le> rsv_end (win w y)"
  note b = rsv_inv_basic [OF assms(1)]
  have km: "rsv_start (win w my) \<le> k" "k \<le> rsv_end (win w my)" "\<not> rsv_is_empty (win w my)"
    using assms(2,5,6) by (auto simp: in_window_def)
  then have my: "my \<in> set (inorder_rb (s_rsv_window_root w))" using b(5) by simp
  then have "0 < rsv_start (win w my)" using win_sorted_disjoint [OF b(3) b(4) my] assms(3) b(6) by auto
  then have "y \<in> set (inorder_rb (s_rsv_window_root w))" using b(5) km(1) k by (auto simp: rsv_is_empty_def)
  then show False using win_sorted_disjoint [OF b(3) my] assms(4) km k by fastforce
qed

definition sample_windows :: ext2_sb_info where
  "sample_windows = sample_sbi
     \<lparr>s_rsv_window_root := RbN Black RbE 0 (RbN Red RbE 12 RbE),
      s_rsv_nodes := (\<lambda>_. sample_rsv)(12 := sample_rsv\<lparr>rsv_window := \<lparr>rsv_start = 1, rsv_end = 8\<rparr>\<rparr>)\<rparr>"

lemma sample_windows_inv: "rsv_inv sample_windows"
  by (auto simp: rsv_inv_def sample_windows_def sample_defs win_sorted_def rsv_is_empty_def rb_ok_def)

text \<open>
  C5: an allocation for an inode that has a reservation always returns. It keeps the window tree a
  red-black tree of disjoint windows and touches no other inode's window. When it succeeds, the blocks
  it claims were free, lie in the group, are the only bits that change, and lie in the inode's own
  window and in no window of another inode. When it fails, the bitmap is unchanged.
\<close>

theorem try_to_allocate_with_rsv_correct:
  fixes s grp
  defines "first \<equiv> int (ext2_group_first_block_no s grp)" and "bpg \<equiv> s_blocks_per_group (ks_sbi s)"
  assumes inv: "rsv_inv w" and my: "my \<noteq> 0" "0 < rsv_goal_size (s_rsv_nodes w my)"
    and g: "0 < bpg" "grp_goal < int bpg"
  shows "\<exists>x num m' w'. ext2_try_to_allocate_with_rsv s grp m locked grp_goal (Some my) count w = Some ((x, num), m', w') \<and>
    rsv_inv w' \<and> rsv_frame my w w' \<and>
    (if x < 0 then x = - 1 \<and> num = count \<and> m' = m
     else claimed m bpg count x num m' \<and> in_window (win w' my) (first + x) num \<and>
       (\<forall>y k. y \<noteq> my \<longrightarrow> first + x \<le> int k \<longrightarrow> int k < first + x + int num \<longrightarrow>
          \<not> (rsv_start (win w y) \<le> k \<and> k \<le> rsv_end (win w y))))"
proof -
  obtain x num m' w' where r: "with_rsv_loop 3 s grp m locked grp_goal 0 my count w = Some ((x, num), m', w')"
    "rsv_inv w'" "rsv_frame my w w'"
    "if x < 0 then x = - 1 \<and> num = count \<and> m' = m else claimed m bpg count x num m' \<and> in_window (win w' my) (first + x) num"
    using with_rsv_loop_ok [OF inv my, of s grp_goal 0 3 grp m locked count] g unfolding first_def bpg_def by auto
  have "win w' y = win w y" if "y \<noteq> my" for y using r(3) that by (simp add: rsv_frame_def)
  then have "\<not> (rsv_start (win w y) \<le> k \<and> k \<le> rsv_end (win w y))"
    if "\<not> x < 0" "y \<noteq> my" "first + x \<le> int k" "int k < first + x + int num" for y k
    using in_window_exclusive [OF r(2) _ my(1) that(2) that(3,4)] r(4) that(1,2) by simp
  then show ?thesis using r by (auto simp: ext2_try_to_allocate_with_rsv_def)
qed

theorem try_to_allocate_with_rsv_correct_witness:
  "\<exists>x num m' w'. ext2_try_to_allocate_with_rsv (sample_fs LittleEndian) 0 (\<lambda>_. 0) False 2 (Some 13) 4 sample_windows =
      Some ((x, num), m', w') \<and> rsv_inv w' \<and>
      (0 \<le> x \<longrightarrow> claimed (\<lambda>_. 0) 64 4 x num m' \<and> in_window (win w' 13) (1 + x) num \<and> \<not> (1 + x \<le> 5 \<and> 5 < 1 + x + int num))"
proof -
  let ?s = "sample_fs LittleEndian"
  have c: "ext2_group_first_block_no ?s 0 = 1" "s_blocks_per_group (ks_sbi ?s) = 64"
      "rsv_goal_size (s_rsv_nodes sample_windows 13) = 8" "win sample_windows 12 = \<lparr>rsv_start = 1, rsv_end = 8\<rparr>"
    by (simp_all add: sample_windows_def sample_defs ext2_group_first_block_no_def)
  have h: "(13::nat) \<noteq> 0" "0 < rsv_goal_size (s_rsv_nodes sample_windows 13)" "0 < s_blocks_per_group (ks_sbi ?s)"
      "2 < int (s_blocks_per_group (ks_sbi ?s))" by (simp_all add: c)
  obtain x num m' w' where "ext2_try_to_allocate_with_rsv ?s 0 (\<lambda>_. 0) False 2 (Some 13) 4 sample_windows = Some ((x, num), m', w')"
    "rsv_inv w'" and r: "if x < 0 then x = - 1 \<and> num = 4 \<and> m' = (\<lambda>_. 0)
       else claimed (\<lambda>_. 0) 64 4 x num m' \<and> in_window (win w' 13) (int 1 + x) num \<and>
       (\<forall>y k. y \<noteq> 13 \<longrightarrow> int 1 + x \<le> int k \<longrightarrow> int k < int 1 + x + int num \<longrightarrow>
          \<not> (rsv_start (win sample_windows y) \<le> k \<and> k \<le> rsv_end (win sample_windows y)))"
    using try_to_allocate_with_rsv_correct [OF sample_windows_inv h, of 0 "\<lambda>_. 0" False 4] unfolding c by blast
  moreover have "\<not> (1 + x \<le> 5 \<and> 5 < 1 + x + int num)" if "0 \<le> x"
  proof -
    have "12 \<noteq> (13::nat) \<longrightarrow> int 1 + x \<le> int 5 \<longrightarrow> int 5 < int 1 + x + int num \<longrightarrow>
        \<not> (rsv_start (win sample_windows 12) \<le> 5 \<and> 5 \<le> rsv_end (win sample_windows 12))"
      using r [unfolded if_not_P [OF that [folded not_less]]] by blast
    then show ?thesis by (simp add: c(4))
  qed
  moreover have "0 \<le> x \<longrightarrow> claimed (\<lambda>_. 0) 64 4 x num m' \<and> in_window (win w' 13) (1 + x) num"
    using r by (simp split: if_splits)
  ultimately show ?thesis by blast
qed
end
