(* ===== verification/Balloc.thy ===== *)
theory Balloc
  imports Reservation Ext2_Inode
begin

text \<open>
  The block allocator of \<open>fs/ext2/balloc.c\<close>: reading and checking a block bitmap, freeing a run of
  blocks and \<open>ext2_new_blocks\<close>, with the free counts of the groups, the counter of the superblock and
  the block count of the inode. Block numbers are naturals below 2^32, the size of \<open>unsigned long\<close>.
\<close>

section \<open>Inodes, quota and credentials\<close>

definition upd_inode :: "nat \<Rightarrow> (ext2_inode_info \<Rightarrow> ext2_inode_info) \<Rightarrow> kstate \<Rightarrow> kstate" where
  "upd_inode ino f s = (case ks_icache s ino of None \<Rightarrow> s | Some ei \<Rightarrow> put_inode ino (f ei) s)"

text \<open>
  What the caller's credentials and the quota of the inode's owner say: \<open>be_quota\<close> is the result of
  the quota check, \<open>be_rsv_locked\<close> whether the lock of the window tree is contended.
\<close>

record balloc_env =
  be_cap_resource :: bool
  be_fsuid :: u32
  be_in_group :: "u32 \<Rightarrow> bool"
  be_quota :: int
  be_rsv_locked :: bool

definition blocks_512 :: "kstate \<Rightarrow> nat \<Rightarrow> u64" where
  "blocks_512 s nr = of_nat (nr * 2 ^ s_blocksize_bits (ks_sb s) div 512)"

definition dquot_alloc_block :: "balloc_env \<Rightarrow> nat \<Rightarrow> nat \<Rightarrow> kstate \<Rightarrow> kstate" where
  "dquot_alloc_block e ino nr s =
     (if be_quota e \<noteq> 0 then s
      else upd_inode ino (upd_vfs (\<lambda>v. v\<lparr>i_blocks := i_blocks v + blocks_512 s nr,
             i_state_vfs := i_state_vfs v OR I_DIRTY_SYNC\<rparr>)) s)"

definition dquot_free_block_nodirty :: "nat \<Rightarrow> nat \<Rightarrow> kstate \<Rightarrow> kstate" where
  "dquot_free_block_nodirty ino nr s =
     upd_inode ino (upd_vfs (\<lambda>v. v\<lparr>i_blocks := i_blocks v - blocks_512 s nr\<rparr>)) s"

section \<open>Block bitmaps\<close>

definition in_range :: "nat \<Rightarrow> nat \<Rightarrow> nat \<Rightarrow> bool" where
  "in_range b first len \<longleftrightarrow> b \<ge> first \<and> int b \<le> (int first + int len - 1) mod 2 ^ 32"

text \<open>
  The offsets are computed in \<open>int\<close>; for a descriptor that the mount accepted they are inside the
  group.
\<close>

definition ext2_valid_block_bitmap :: "ext2_group_desc \<Rightarrow> nat \<Rightarrow> mem \<Rightarrow> kstate \<Rightarrow> bool \<times> kstate" where
  "ext2_valid_block_bitmap desc block_group m s =
     (let first = int (ext2_group_first_block_no s block_group);
          itb = s_itb_per_group (ks_sbi s);
          offset = (\<lambda>b. nat (int b - first));
          t = offset (bg_inode_table desc) in
      if \<not> ext2_test_bit m (offset (bg_block_bitmap desc)) then (False, ext2_error s)
      else if \<not> ext2_test_bit m (offset (bg_inode_bitmap desc)) then (False, ext2_error s)
      else if ext2_find_next_zero_bit m (t + itb) t \<ge> t + itb then (True, s)
      else (False, ext2_error s))"

text \<open>The buffer that is returned is the pair of its block number and its contents.\<close>

definition read_block_bitmap :: "nat \<Rightarrow> kstate \<Rightarrow> (nat \<times> mem) option \<times> kstate" where
  "read_block_bitmap block_group s =
     (case ext2_get_group_desc block_group s of
        (None, s1) \<Rightarrow> (None, s1)
      | (Some desc, s1) \<Rightarrow>
          (case ks_dev s1 (bg_block_bitmap desc) of
             None \<Rightarrow> (None, ext2_error s1)
           | Some m \<Rightarrow>
               if ks_uptodate s1 (bg_block_bitmap desc) then (Some (bg_block_bitmap desc, m), s1)
               else (Some (bg_block_bitmap desc, m),
                 snd (ext2_valid_block_bitmap desc block_group m
                   (s1\<lparr>ks_uptodate := (ks_uptodate s1)(bg_block_bitmap desc := True)\<rparr>)))))"

text \<open>The bitmap is changed in its buffer, which is the block as the buffer cache shows it.\<close>

definition put_block :: "nat \<Rightarrow> mem \<Rightarrow> kstate \<Rightarrow> kstate" where
  "put_block b m s = s\<lparr>ks_dev := (ks_dev s)(b \<mapsto> m)\<rparr>"

definition release_blocks :: "int \<Rightarrow> kstate \<Rightarrow> kstate" where
  "release_blocks count s =
     (if count \<noteq> 0
      then s\<lparr>ks_sbi := (ks_sbi s)\<lparr>s_freeblocks_counter := s_freeblocks_counter (ks_sbi s) + count\<rparr>,
             ks_sb := (ks_sb s)\<lparr>s_dirt := True\<rparr>\<rparr>
      else s)"

definition group_adjust_blocks :: "nat \<Rightarrow> int \<Rightarrow> kstate \<Rightarrow> kstate" where
  "group_adjust_blocks group_no count s =
     (if count \<noteq> 0
      then let s1 = upd_group_desc group_no
                 (\<lambda>d. d\<lparr>bg_free_blocks_count := bg_free_blocks_count d + of_int count\<rparr>) s in
           s1\<lparr>ks_sb := (ks_sb s1)\<lparr>s_dirt := True\<rparr>\<rparr>
      else s)"

text \<open>The check both the allocator and \<open>ext2_free_blocks\<close> make before they touch a run of blocks.\<close>

definition system_zone :: "ext2_group_desc \<Rightarrow> nat \<Rightarrow> nat \<Rightarrow> nat \<Rightarrow> bool" where
  "system_zone desc itb block count \<longleftrightarrow>
     in_range (bg_block_bitmap desc) block count \<or> in_range (bg_inode_bitmap desc) block count \<or>
     in_range block (bg_inode_table desc) itb \<or> in_range (block + count - 1) (bg_inode_table desc) itb"

section \<open>Freeing\<close>

fun clear_run :: "nat \<Rightarrow> nat \<Rightarrow> mem \<Rightarrow> nat \<Rightarrow> kstate \<Rightarrow> (mem \<times> nat) \<times> kstate" where
  "clear_run 0 b m group_freed s = ((m, group_freed), s)"
| "clear_run (Suc n) b m group_freed s =
     (if ext2_test_bit m b then clear_run n (b + 1) (ext2_clear_bit m b) (group_freed + 1) s
      else clear_run n (b + 1) m group_freed (ext2_error s))"

text \<open>
  The part of \<open>ext2_free_blocks\<close> from \<open>do_more\<close> on; \<open>bpg\<close> and \<open>first\<close> are the blocks per group and the
  first data block, which do not change. The result is the number of blocks freed.
\<close>

function free_more :: "nat \<Rightarrow> nat \<Rightarrow> nat \<Rightarrow> nat \<Rightarrow> nat \<Rightarrow> kstate \<Rightarrow> (nat \<times> kstate) option" where
  "free_more bpg first block count freed s =
     (if bpg = 0 then None
      else
        let block_group = (block - first) div bpg;
            b = (block - first) mod bpg;
            overflow = (if b + count > bpg then b + count - bpg else 0);
            cnt = count - overflow in
        case read_block_bitmap block_group s of
          (None, s1) \<Rightarrow> Some (freed, s1)
        | (Some (bb, m), s1) \<Rightarrow>
            (case ext2_get_group_desc block_group s1 of
               (None, s2) \<Rightarrow> Some (freed, s2)
             | (Some desc, s2) \<Rightarrow>
                 if system_zone desc (s_itb_per_group (ks_sbi s2)) block cnt then Some (freed, ext2_error s2)
                 else case clear_run cnt b m 0 s2 of
                   ((m', group_freed), s3) \<Rightarrow>
                     let s4 = group_adjust_blocks block_group (int group_freed) (put_block bb m' s3) in
                     if overflow \<noteq> 0 then free_more bpg first (block + cnt) overflow (freed + group_freed) s4
                     else Some (freed + group_freed, s4)))"
  by pat_completeness auto
termination
  by (relation "measure (\<lambda>(bpg, first, block, count, freed, s). count)")
    (auto split: if_splits simp: less_diff_conv2 le_diff_conv)

declare free_more.simps [simp del]

definition ext2_free_blocks :: "nat \<Rightarrow> nat \<Rightarrow> nat \<Rightarrow> kstate \<Rightarrow> kstate option" where
  "ext2_free_blocks ino block count s =
     (let es = ks_es s; lim = (block + count) mod 2 ^ 32 in
      if block < unat (es_first_data_block es) \<or> lim < block \<or> lim > unat (es_blocks_count es)
      then Some (dquot_free_block_nodirty ino 0 (release_blocks 0 (ext2_error s)))
      else map_option (\<lambda>(freed, s1). dquot_free_block_nodirty ino freed (release_blocks (int freed) s1))
        (free_more (s_blocks_per_group (ks_sbi s)) (unat (es_first_data_block es)) block count 0 s))"

section \<open>Allocating\<close>

definition ext2_has_free_blocks :: "balloc_env \<Rightarrow> kstate \<Rightarrow> bool" where
  "ext2_has_free_blocks e s \<longleftrightarrow>
     \<not> ((of_int (max 0 (s_freeblocks_counter (ks_sbi s))) :: u32) < es_r_blocks_count (ks_es s) + 1 \<and>
        \<not> be_cap_resource e \<and> s_resuid (ks_sbi s) \<noteq> be_fsuid e \<and>
        (s_resgid (ks_sbi s) = 0 \<or> \<not> be_in_group e (s_resgid (ks_sbi s))))"

text \<open>The bitmap of a group is read and an allocation in it is tried.\<close>

definition try_group ::
  "bool \<Rightarrow> nat \<Rightarrow> int \<Rightarrow> nat option \<Rightarrow> nat \<Rightarrow> kstate \<Rightarrow> ((int \<times> nat) option \<times> kstate) option" where
  "try_group locked group_no goal my_rsv num s =
     (case read_block_bitmap group_no s of
        (None, s1) \<Rightarrow> Some (None, s1)
      | (Some (bb, m), s1) \<Rightarrow>
          (case ext2_try_to_allocate_with_rsv s1 group_no m locked goal my_rsv num (ks_sbi s1) of
             None \<Rightarrow> None
           | Some (rn, m', w) \<Rightarrow> Some (Some rn, put_block bb m' (s1\<lparr>ks_sbi := w\<rparr>))))"

text \<open>How the search ended: \<open>goto io_error\<close>, \<open>goto allocated\<close>, or all groups were tried.\<close>

datatype search_result = Io_error | Allocated nat int nat | Exhausted nat

fun search_groups ::
  "nat \<Rightarrow> bool \<Rightarrow> nat option \<Rightarrow> nat \<Rightarrow> nat \<Rightarrow> nat \<Rightarrow> kstate \<Rightarrow> (search_result \<times> kstate) option" where
  "search_groups 0 locked my_rsv windowsz group_no num s = Some (Exhausted num, s)"
| "search_groups (Suc n) locked my_rsv windowsz group_no num s =
     (let g = (if group_no + 1 \<ge> s_groups_count (ks_sbi s) then 0 else group_no + 1) in
      case ext2_get_group_desc g s of
        (None, s1) \<Rightarrow> Some (Io_error, s1)
      | (Some gdp, s1) \<Rightarrow>
          let free_blocks = unat (bg_free_blocks_count gdp) in
          if free_blocks = 0 \<or> my_rsv \<noteq> None \<and> free_blocks \<le> windowsz div 2
          then search_groups n locked my_rsv windowsz g num s1
          else case try_group locked g (- 1) my_rsv num s1 of
            None \<Rightarrow> None
          | Some (None, s2) \<Rightarrow> Some (Io_error, s2)
          | Some (Some (r, num'), s2) \<Rightarrow>
              if r \<ge> 0 then Some (Allocated g r num', s2)
              else search_groups n locked my_rsv windowsz g num' s2)"

text \<open>From \<open>retry_alloc\<close> to the end of the loop over the groups, for a given start group.\<close>

definition search_from ::
  "bool \<Rightarrow> nat \<Rightarrow> nat option \<Rightarrow> nat \<Rightarrow> nat \<Rightarrow> nat \<Rightarrow> ext2_group_desc \<Rightarrow> kstate \<Rightarrow> (search_result \<times> kstate) option" where
  "search_from locked goal my_rsv windowsz group_no num gdp s =
     (let n = s_groups_count (ks_sbi s) in
      if unat (bg_free_blocks_count gdp) > 0 then
        let target = (goal - unat (es_first_data_block (ks_es s))) mod s_blocks_per_group (ks_sbi s) in
        case try_group locked group_no (int target) my_rsv num s of
          None \<Rightarrow> None
        | Some (None, s1) \<Rightarrow> Some (Io_error, s1)
        | Some (Some (r, num'), s1) \<Rightarrow>
            if r \<ge> 0 then Some (Allocated group_no r num', s1)
            else search_groups n locked my_rsv windowsz group_no num' s1
      else search_groups n locked my_rsv windowsz group_no num s)"

text \<open>
  \<open>retry_alloc\<close> with its two backward jumps: forgetting the reservation when every group was tried,
  and trying again when the blocks found are in a system zone.
\<close>

fun retry_alloc ::
  "nat \<Rightarrow> bool \<Rightarrow> nat \<Rightarrow> nat \<Rightarrow> nat option \<Rightarrow> nat \<Rightarrow> nat \<Rightarrow> nat \<Rightarrow> kstate \<Rightarrow> (search_result \<times> kstate) option" where
  "retry_alloc 0 locked goal goal_group my_rsv windowsz group_no num s = None"
| "retry_alloc (Suc n) locked goal goal_group my_rsv windowsz group_no num s =
     (case ext2_get_group_desc group_no s of
        (None, s1) \<Rightarrow> Some (Io_error, s1)
      | (Some gdp, s1) \<Rightarrow>
          let free_blocks = unat (bg_free_blocks_count gdp);
              my = (case my_rsv of
                      None \<Rightarrow> None
                    | Some x \<Rightarrow>
                        if free_blocks < windowsz \<and> free_blocks > 0 \<and> rsv_is_empty (win (ks_sbi s1) x)
                        then None else Some x) in
          case search_from locked goal my windowsz group_no num gdp s1 of
            None \<Rightarrow> None
          | Some (Io_error, s2) \<Rightarrow> Some (Io_error, s2)
          | Some (Exhausted num', s2) \<Rightarrow>
              if my \<noteq> None then retry_alloc n locked goal goal_group None 0 goal_group num' s2
              else Some (Exhausted num', s2)
          | Some (Allocated g r num', s2) \<Rightarrow>
              (case lookup_group_desc s2 g of
                 None \<Rightarrow> None
               | Some d \<Rightarrow>
                   if system_zone d (s_itb_per_group (ks_sbi s2)) (nat r + ext2_group_first_block_no s2 g) num'
                   then retry_alloc n locked goal goal_group my windowsz g num' (ext2_error s2)
                   else Some (Allocated g r num', s2)))"

text \<open>The result is the block or 0, the value left in \<open>*count\<close>, and the error code.\<close>

definition undo_alloc :: "nat \<Rightarrow> nat \<Rightarrow> int \<Rightarrow> kstate \<Rightarrow> (nat \<times> nat \<times> int) \<times> kstate" where
  "undo_alloc ino count err s =
     ((0, count, err), upd_inode ino mark_inode_dirty (dquot_free_block_nodirty ino count s))"

definition finish_alloc ::
  "nat \<Rightarrow> nat \<Rightarrow> nat \<Rightarrow> int \<Rightarrow> nat \<Rightarrow> kstate \<Rightarrow> (nat \<times> nat \<times> int) \<times> kstate" where
  "finish_alloc ino count g r num s =
     (let ret_block = nat r + ext2_group_first_block_no s g in
      if ret_block + num - 1 \<ge> unat (es_blocks_count (ks_es s)) then ((0, count, - ENOSPC), ext2_error s)
      else
        let s1 = group_adjust_blocks g (- int num) s;
            s2 = s1\<lparr>ks_sbi := (ks_sbi s1)\<lparr>s_freeblocks_counter := s_freeblocks_counter (ks_sbi s1) - int num\<rparr>\<rparr>;
            s3 = upd_inode ino mark_inode_dirty (dquot_free_block_nodirty ino (count - num) s2) in
        ((ret_block, num, 0), s3))"

definition goal_block :: "nat \<Rightarrow> kstate \<Rightarrow> nat" where
  "goal_block goal s =
     (if goal < unat (es_first_data_block (ks_es s)) \<or> goal \<ge> unat (es_blocks_count (ks_es s))
      then unat (es_first_data_block (ks_es s)) else goal)"

text \<open>
  The number of rounds is bounded by the number of blocks: each jump back from a system zone leaves
  fewer free bits, and the reservation is forgotten once.
\<close>

definition ext2_new_blocks ::
  "balloc_env \<Rightarrow> nat \<Rightarrow> nat \<Rightarrow> nat \<Rightarrow> kstate \<Rightarrow> ((nat \<times> nat \<times> int) \<times> kstate) option" where
  "ext2_new_blocks e ino goal count s =
     (if be_quota e \<noteq> 0 then Some ((0, count, be_quota e), s)
      else
        let s0 = dquot_alloc_block e ino count s;
            windowsz = (case ks_icache s0 ino of
                          None \<Rightarrow> 0
                        | Some ei \<Rightarrow> if i_block_alloc_info ei = None then 0
                                     else rsv_goal_size (s_rsv_nodes (ks_sbi s0) ino) mod 2 ^ 16);
            my_rsv = (if windowsz > 0 then Some ino else None);
            bpg = s_blocks_per_group (ks_sbi s0) in
        if \<not> ext2_has_free_blocks e s0 then Some (undo_alloc ino count (- ENOSPC) s0)
        else if bpg = 0 then None
        else
          let gl = goal_block goal s0;
              goal_group = (gl - unat (es_first_data_block (ks_es s0))) div bpg in
          case retry_alloc (s_groups_count (ks_sbi s0) * bpg + 2) (be_rsv_locked e) gl goal_group my_rsv
              windowsz goal_group count s0 of
            None \<Rightarrow> None
          | Some (Io_error, s1) \<Rightarrow> Some (undo_alloc ino count (- EIO) s1)
          | Some (Exhausted _, s1) \<Rightarrow> Some (undo_alloc ino count (- ENOSPC) s1)
          | Some (Allocated g r num, s1) \<Rightarrow> Some (finish_alloc ino count g r num s1))"

definition ext2_new_block ::
  "balloc_env \<Rightarrow> nat \<Rightarrow> nat \<Rightarrow> kstate \<Rightarrow> ((nat \<times> int) \<times> kstate) option" where
  "ext2_new_block e ino goal s =
     map_option (\<lambda>((b, c, err), s'). ((b, err), s')) (ext2_new_blocks e ino goal 1 s)"

section \<open>What the searches leave alone\<close>

text \<open>
  The allocator changes no block but bitmaps, and of the inodes in memory only their block counts
  and dirty states.
\<close>

definition bitmap_blocks :: "kstate \<Rightarrow> nat set" where
  "bitmap_blocks s = {bg_block_bitmap d | g d. lookup_group_desc s g = Some d}"

definition inode_core :: "ext2_inode_info \<Rightarrow> ext2_inode_info" where
  "inode_core ei = ei\<lparr>vfs_inode := (vfs_inode ei)\<lparr>i_blocks := 0, i_state_vfs := 0\<rparr>\<rparr>"

definition sbi_core :: "ext2_sb_info \<Rightarrow> ext2_sb_info" where
  "sbi_core w = w\<lparr>s_mount_state := 0, s_freeblocks_counter := 0, s_rsv_window_root := RbE, s_rsv_nodes := \<lambda>_. sample_rsv\<rparr>"

definition data_frame :: "kstate \<Rightarrow> kstate \<Rightarrow> bool" where
  "data_frame s s' \<longleftrightarrow>
     ks_arch s' = ks_arch s \<and> ks_now s' = ks_now s \<and> ks_gps s' = ks_gps s \<and> ks_pages s' = ks_pages s \<and>
     ks_slab s' = ks_slab s \<and> ks_oom s' = ks_oom s \<and> s_blocksize (ks_sb s') = s_blocksize (ks_sb s) \<and>
     s_blocksize_bits (ks_sb s') = s_blocksize_bits (ks_sb s) \<and> sbi_core (ks_sbi s') = sbi_core (ks_sbi s) \<and>
     (\<forall>b. b \<notin> bitmap_blocks s \<longrightarrow> ks_dev s' b = ks_dev s b) \<and>
     (\<forall>n. map_option inode_core (ks_icache s' n) = map_option inode_core (ks_icache s n))"

lemma data_frame_refl [simp]: "data_frame s s"
  by (simp add: data_frame_def)

lemma data_frame_bits: "data_frame s s' \<Longrightarrow> s_blocksize_bits (ks_sb s') = s_blocksize_bits (ks_sb s)"
  by (simp add: data_frame_def)

lemma data_frame_trans: "data_frame s t \<Longrightarrow> data_frame t u \<Longrightarrow> bitmap_blocks t = bitmap_blocks s \<Longrightarrow> data_frame s u"
  by (simp add: data_frame_def)

lemma data_frame_upd_inode:
  "(\<And>ei. inode_core (f ei) = inode_core ei) \<Longrightarrow> data_frame s (upd_inode ino f s)"
  by (auto simp: data_frame_def upd_inode_def put_inode_def split: option.splits)

lemma inode_core_upd [simp]:
  "inode_core (mark_inode_dirty ei) = inode_core ei" "inode_core (upd_vfs (\<lambda>v. v\<lparr>i_blocks := B v\<rparr>) ei) = inode_core ei"
  "inode_core (upd_vfs (\<lambda>v. v\<lparr>i_blocks := B v, i_state_vfs := S v\<rparr>) ei) = inode_core ei"
  by (simp_all add: inode_core_def mark_inode_dirty_def upd_vfs_def)

text \<open>
  Between the states of one allocation only bitmaps, windows, the error state and the buffers' being
  up to date change.
\<close>

definition alloc_frame :: "kstate \<Rightarrow> kstate \<Rightarrow> bool" where
  "alloc_frame s s' \<longleftrightarrow> data_frame s s' \<and>
     ks_gdesc s' = ks_gdesc s \<and> ks_icache s' = ks_icache s \<and>
     (ks_sbi s')\<lparr>s_mount_state := 0, s_rsv_window_root := RbE, s_rsv_nodes := \<lambda>_. sample_rsv\<rparr> =
       (ks_sbi s)\<lparr>s_mount_state := 0, s_rsv_window_root := RbE, s_rsv_nodes := \<lambda>_. sample_rsv\<rparr> \<and>
     es_first_data_block (ks_es s') = es_first_data_block (ks_es s) \<and>
     es_blocks_count (ks_es s') = es_blocks_count (ks_es s) \<and>
     es_r_blocks_count (ks_es s') = es_r_blocks_count (ks_es s) \<and>
     s_blocksize_bits (ks_sb s') = s_blocksize_bits (ks_sb s)"

lemma alloc_frame_refl [simp]: "alloc_frame s s"
  by (simp add: alloc_frame_def)

lemma alloc_frame_sbi:
  assumes "alloc_frame s s'"
  shows "s_blocks_per_group (ks_sbi s') = s_blocks_per_group (ks_sbi s)"
    "s_groups_count (ks_sbi s') = s_groups_count (ks_sbi s)"
    "s_itb_per_group (ks_sbi s') = s_itb_per_group (ks_sbi s)"
    "s_desc_per_block (ks_sbi s') = s_desc_per_block (ks_sbi s)"
    "s_desc_per_block_bits (ks_sbi s') = s_desc_per_block_bits (ks_sbi s)"
    "s_freeblocks_counter (ks_sbi s') = s_freeblocks_counter (ks_sbi s)"
    "s_resuid (ks_sbi s') = s_resuid (ks_sbi s)" "s_resgid (ks_sbi s') = s_resgid (ks_sbi s)"
proof -
  let ?z = "\<lambda>w. w\<lparr>s_mount_state := 0, s_rsv_window_root := RbE, s_rsv_nodes := \<lambda>_. sample_rsv\<rparr>"
  have eq: "?z (ks_sbi s') = ?z (ks_sbi s)" using assms by (simp add: alloc_frame_def)
  show "s_blocks_per_group (ks_sbi s') = s_blocks_per_group (ks_sbi s)"
    "s_groups_count (ks_sbi s') = s_groups_count (ks_sbi s)"
    "s_itb_per_group (ks_sbi s') = s_itb_per_group (ks_sbi s)"
    "s_desc_per_block (ks_sbi s') = s_desc_per_block (ks_sbi s)"
    "s_desc_per_block_bits (ks_sbi s') = s_desc_per_block_bits (ks_sbi s)"
    "s_freeblocks_counter (ks_sbi s') = s_freeblocks_counter (ks_sbi s)"
    "s_resuid (ks_sbi s') = s_resuid (ks_sbi s)" "s_resgid (ks_sbi s') = s_resgid (ks_sbi s)"
    using arg_cong [OF eq, of s_blocks_per_group] arg_cong [OF eq, of s_groups_count]
      arg_cong [OF eq, of s_itb_per_group] arg_cong [OF eq, of s_desc_per_block]
      arg_cong [OF eq, of s_desc_per_block_bits] arg_cong [OF eq, of s_freeblocks_counter]
      arg_cong [OF eq, of s_resuid] arg_cong [OF eq, of s_resgid]
    by simp_all
qed

lemma alloc_frame_places:
  assumes "alloc_frame s s'"
  shows "lookup_group_desc s' g = lookup_group_desc s g"
    "ext2_group_first_block_no s' g = ext2_group_first_block_no s g" "desc_geometry s' = desc_geometry s"
  using assms alloc_frame_sbi [OF assms]
  by (simp_all add: lookup_group_desc_def group_desc_index_def group_desc_offset_def
      ext2_group_first_block_no_def desc_geometry_def) (simp_all add: alloc_frame_def)

lemma alloc_frame_bitmaps: "alloc_frame s s' \<Longrightarrow> bitmap_blocks s' = bitmap_blocks s"
  by (simp add: bitmap_blocks_def alloc_frame_places)

lemma alloc_frame_trans [trans]: "alloc_frame s t \<Longrightarrow> alloc_frame t u \<Longrightarrow> alloc_frame s u"
  using alloc_frame_bitmaps [of s t] data_frame_trans [of s t u] by (simp add: alloc_frame_def)

lemma alloc_frame_error [simp]: "alloc_frame s (ext2_error s)"
  by (simp add: alloc_frame_def data_frame_def sbi_core_def) (simp add: ext2_error_def ext2_sync_super_def Let_def)

lemma ext2_error_rsv [simp]:
  "s_rsv_window_root (ks_sbi (ext2_error s)) = s_rsv_window_root (ks_sbi s)"
  "s_rsv_nodes (ks_sbi (ext2_error s)) = s_rsv_nodes (ks_sbi s)"
  by (simp_all add: ext2_error_def Let_def)

lemma alloc_frame_uptodate [simp]: "alloc_frame s (s\<lparr>ks_uptodate := u\<rparr>)"
  by (simp add: alloc_frame_def data_frame_def)

lemma alloc_frame_put_block: "b \<in> bitmap_blocks s \<Longrightarrow> alloc_frame s (put_block b m s)"
  by (auto simp: alloc_frame_def put_block_def data_frame_def)

lemma alloc_frame_rsv:
  assumes "rsv_frame my (ks_sbi s) w"
  shows "alloc_frame s (s\<lparr>ks_sbi := w\<rparr>)"
proof -
  obtain a b where "w = (ks_sbi s)\<lparr>s_rsv_window_root := a, s_rsv_nodes := b\<rparr>"
    using assms unfolding rsv_frame_def by blast
  then show ?thesis by (simp add: alloc_frame_def data_frame_def sbi_core_def)
qed

section \<open>The free space\<close>

text \<open>
  The free blocks the bitmaps of the groups show; this set is what the allocator is about for its
  callers.
\<close>

definition group_bitmap :: "kstate \<Rightarrow> nat \<Rightarrow> mem option" where
  "group_bitmap s g = Option.bind (lookup_group_desc s g) (\<lambda>d. ks_dev s (bg_block_bitmap d))"

definition free_space :: "kstate \<Rightarrow> nat set" where
  "free_space s = {ext2_group_first_block_no s g + i | g i m.
     g < s_groups_count (ks_sbi s) \<and> i < s_blocks_per_group (ks_sbi s) \<and> group_bitmap s g = Some m \<and> \<not> ext2_test_bit m i}"

definition reserved_block :: "kstate \<Rightarrow> ext2_group_desc \<Rightarrow> nat \<Rightarrow> bool" where
  "reserved_block s d b \<longleftrightarrow>
     b = bg_block_bitmap d \<or> b = bg_inode_bitmap d \<or> in_range b (bg_inode_table d) (s_itb_per_group (ks_sbi s))"

text \<open>
  The state of a sound file system: every group has its descriptor and a bitmap of its own, the free
  count of the descriptor is the number of free bits, no metadata block of the group and no block past
  the end is free, and the windows are in order.
\<close>

definition group_ok :: "kstate \<Rightarrow> nat \<Rightarrow> bool" where
  "group_ok s g \<longleftrightarrow> (\<exists>d m. lookup_group_desc s g = Some d \<and> ks_dev s (bg_block_bitmap d) = Some m \<and>
     unat (bg_free_blocks_count d) = card (bm.free_bits m (s_blocks_per_group (ks_sbi s))) \<and>
     (\<forall>i. i < s_blocks_per_group (ks_sbi s) \<longrightarrow> \<not> ext2_test_bit m i \<longrightarrow>
        ext2_group_first_block_no s g + i < unat (es_blocks_count (ks_es s)) \<and>
        \<not> reserved_block s d (ext2_group_first_block_no s g + i)))"

definition balloc_inv :: "kstate \<Rightarrow> bool" where
  "balloc_inv s \<longleftrightarrow>
     0 < s_blocks_per_group (ks_sbi s) \<and> s_blocks_per_group (ks_sbi s) < 2 ^ 16 \<and> 0 < s_groups_count (ks_sbi s) \<and>
     desc_geometry s \<and> rsv_inv (ks_sbi s) \<and>
     unat (es_blocks_count (ks_es s)) \<le> ext2_group_first_block_no s (s_groups_count (ks_sbi s)) \<and>
     (\<forall>g. g < s_groups_count (ks_sbi s) \<longrightarrow> group_ok s g) \<and>
     inj_on (\<lambda>g. map_option bg_block_bitmap (lookup_group_desc s g)) {..<s_groups_count (ks_sbi s)}"

text \<open>The owner of the windows an allocation may use, if any.\<close>

definition rsv_owner_ok :: "ext2_sb_info \<Rightarrow> nat option \<Rightarrow> bool" where
  "rsv_owner_ok w my = (case my of None \<Rightarrow> True | Some x \<Rightarrow> x \<noteq> 0 \<and> 0 < rsv_goal_size (s_rsv_nodes w x))"

lemma read_block_bitmap_ok:
  assumes "lookup_group_desc s g = Some d" "ks_dev s (bg_block_bitmap d) = Some m"
  shows "\<exists>s1. read_block_bitmap g s = (Some (bg_block_bitmap d, m), s1) \<and> alloc_frame s s1 \<and> ks_dev s1 = ks_dev s \<and>
     s_rsv_window_root (ks_sbi s1) = s_rsv_window_root (ks_sbi s) \<and> s_rsv_nodes (ks_sbi s1) = s_rsv_nodes (ks_sbi s)"
proof -
  define s0 where "s0 = (if ks_uptodate s (bg_block_bitmap d) then s
    else s\<lparr>ks_uptodate := (ks_uptodate s)(bg_block_bitmap d := True)\<rparr>)"
  have s0: "alloc_frame s s0" "ks_dev s0 = ks_dev s" "ks_sbi s0 = ks_sbi s" by (simp_all add: s0_def)
  have "snd (read_block_bitmap g s) \<in> {s0, ext2_error s0} \<and> fst (read_block_bitmap g s) = Some (bg_block_bitmap d, m)"
    using assms by (auto simp: read_block_bitmap_def ext2_get_group_desc_Some ext2_valid_block_bitmap_def s0_def Let_def)
  then show ?thesis using s0 alloc_frame_trans [OF s0(1) alloc_frame_error]
    by (cases "read_block_bitmap g s") auto
qed

text \<open>
  One attempt in a group: it fails and leaves the bitmap alone, without a window and a goal only when
  the group is full; or it claims free blocks of the group.
\<close>

definition group_try :: "kstate \<Rightarrow> nat \<Rightarrow> int \<Rightarrow> nat option \<Rightarrow> nat \<Rightarrow> int \<Rightarrow> nat \<Rightarrow> kstate \<Rightarrow> bool" where
  "group_try s g goal my num r k s' \<longleftrightarrow>
     alloc_frame s s' \<and> rsv_inv (ks_sbi s') \<and> (\<forall>x. rsv_owner_ok (ks_sbi s) x \<longrightarrow> rsv_owner_ok (ks_sbi s') x) \<and>
     (\<exists>d m m'. lookup_group_desc s g = Some d \<and> ks_dev s (bg_block_bitmap d) = Some m \<and>
        ks_dev s' = (ks_dev s)(bg_block_bitmap d \<mapsto> m') \<and>
        (if r < 0 then m' = m \<and> k \<le> num \<and> (my = None \<and> goal < 0 \<longrightarrow> bm.free_bits m (s_blocks_per_group (ks_sbi s)) = {})
         else claimed m (s_blocks_per_group (ks_sbi s)) num r k m'))"

lemma try_whole_group:
  assumes "goal < int (s_blocks_per_group (ks_sbi s))"
  shows "\<exists>r k m'. ext2_try_to_allocate s g m goal num None = Some ((r, k), m') \<and>
    (if r < 0 then m' = m \<and> k = 0 \<and> (goal < 0 \<longrightarrow> bm.free_bits m (s_blocks_per_group (ks_sbi s)) = {})
     else claimed m (s_blocks_per_group (ks_sbi s)) num r k m')"
proof -
  let ?bpg = "int (s_blocks_per_group (ks_sbi s))"
  have rg: "alloc_range s g goal None = (if goal > 0 then goal else 0, ?bpg, goal)" by (simp add: alloc_range_def Let_def)
  then obtain r k m' where t: "ext2_try_to_allocate s g m goal num None = Some ((r, k), m')"
    using assms by (cases "alloc_repeat False m (if goal > 0 then goal else 0) ?bpg goal num") (auto simp: ext2_try_to_allocate_def)
  note out = try_to_allocate_outcome [OF t rg assms]
  have "goal < 0 \<longrightarrow> r < 0 \<longrightarrow> bm.free_bits m (s_blocks_per_group (ks_sbi s)) = {}"
  proof (intro impI)
    assume "goal < 0" "r < 0"
    then have "ext2_test_bit m i" if "i < s_blocks_per_group (ks_sbi s)" for i
      using out that by (auto simp: alloc_outcome_def dest!: spec [of _ "int i"])
    then show "bm.free_bits m (s_blocks_per_group (ks_sbi s)) = {}" by (auto simp: bm.free_bits_def)
  qed
  then show ?thesis using t out outcome_claimed [OF out, of "s_blocks_per_group (ks_sbi s)"]
    by (auto simp: alloc_outcome_def)
qed

lemma try_group_ok:
  assumes ok: "group_ok s g" and inv: "rsv_inv (ks_sbi s)" and bpg: "0 < s_blocks_per_group (ks_sbi s)"
    and goal: "goal < int (s_blocks_per_group (ks_sbi s))" and my: "rsv_owner_ok (ks_sbi s) my"
  shows "\<exists>r k s'. try_group locked g goal my num s = Some (Some (r, k), s') \<and> group_try s g goal my num r k s'"
proof -
  obtain d m where d: "lookup_group_desc s g = Some d" "ks_dev s (bg_block_bitmap d) = Some m"
    using ok by (auto simp: group_ok_def)
  obtain s1 where s1: "read_block_bitmap g s = (Some (bg_block_bitmap d, m), s1)" "alloc_frame s s1" "ks_dev s1 = ks_dev s"
    "s_rsv_window_root (ks_sbi s1) = s_rsv_window_root (ks_sbi s)" "s_rsv_nodes (ks_sbi s1) = s_rsv_nodes (ks_sbi s)"
    using read_block_bitmap_ok [OF d] by blast
  have inv1: "rsv_inv (ks_sbi s1)" using inv rsv_inv_cong [of "ks_sbi s1" "ks_sbi s"] s1(4,5) by simp
  note bpg1 = alloc_frame_sbi(1) [OF s1(2)]
  have "\<exists>r k m' w. ext2_try_to_allocate_with_rsv s1 g m locked goal my num (ks_sbi s1) = Some ((r, k), m', w) \<and>
      rsv_inv w \<and> (\<exists>x. rsv_frame x (ks_sbi s1) w) \<and>
      (\<forall>x. rsv_owner_ok (ks_sbi s) x \<longrightarrow> rsv_owner_ok w x) \<and>
      (if r < 0 then m' = m \<and> k \<le> num \<and> (my = None \<and> goal < 0 \<longrightarrow> bm.free_bits m (s_blocks_per_group (ks_sbi s)) = {})
       else claimed m (s_blocks_per_group (ks_sbi s)) num r k m')"
  proof (cases my)
    case None
    obtain r k m' where "ext2_try_to_allocate s1 g m goal num None = Some ((r, k), m')"
      "if r < 0 then m' = m \<and> k = 0 \<and> (goal < 0 \<longrightarrow> bm.free_bits m (s_blocks_per_group (ks_sbi s)) = {})
       else claimed m (s_blocks_per_group (ks_sbi s)) num r k m'"
      using try_whole_group [of goal s1 g m num] goal unfolding bpg1 by blast
    then show ?thesis using None inv1 s1(5)
      by (intro exI [of _ r] exI [of _ k] exI [of _ m'] exI [of _ "ks_sbi s1"])
        (auto simp: ext2_try_to_allocate_with_rsv_def rsv_owner_ok_def intro: rsv_frame_refl split: option.splits if_splits)
  next
    case (Some x)
    then have x: "x \<noteq> 0" "0 < rsv_goal_size (s_rsv_nodes (ks_sbi s1) x)" using my s1(5) by (auto simp: rsv_owner_ok_def)
    obtain r k m' w where w: "with_rsv_loop 3 s1 g m locked goal 0 x num (ks_sbi s1) = Some ((r, k), m', w)" "rsv_inv w"
      "rsv_frame x (ks_sbi s1) w" "0 < rsv_goal_size (s_rsv_nodes w x)"
      "if r < 0 then r = - 1 \<and> k = num \<and> m' = m
       else claimed m (s_blocks_per_group (ks_sbi s)) num r k m' \<and> in_window (win w x) (int (ext2_group_first_block_no s1 g) + r) k"
      using with_rsv_loop_ok [OF inv1 x, of s1 goal 0 3 g m locked num] bpg goal unfolding bpg1 by auto
    have nodes: "z \<noteq> x \<Longrightarrow> s_rsv_nodes w z = s_rsv_nodes (ks_sbi s) z" for z
      using w(3) s1(5) unfolding rsv_frame_def by simp
    have "rsv_owner_ok w y" if "rsv_owner_ok (ks_sbi s) y" for y
      using that w(4) nodes by (cases "y = Some x") (auto simp: rsv_owner_ok_def split: option.splits)
    then show ?thesis using w Some by (fastforce simp: ext2_try_to_allocate_with_rsv_def)
  qed
  then obtain r k m' w x where w: "ext2_try_to_allocate_with_rsv s1 g m locked goal my num (ks_sbi s1) = Some ((r, k), m', w)"
    "rsv_inv w" "rsv_frame x (ks_sbi s1) w" "\<forall>x. rsv_owner_ok (ks_sbi s) x \<longrightarrow> rsv_owner_ok w x"
    and out: "if r < 0 then m' = m \<and> k \<le> num \<and> (my = None \<and> goal < 0 \<longrightarrow> bm.free_bits m (s_blocks_per_group (ks_sbi s)) = {})
       else claimed m (s_blocks_per_group (ks_sbi s)) num r k m'"
    by blast
  let ?s' = "put_block (bg_block_bitmap d) m' (s1\<lparr>ks_sbi := w\<rparr>)"
  have "alloc_frame s ?s'"
  proof (rule alloc_frame_trans [OF s1(2)], rule alloc_frame_trans [OF alloc_frame_rsv [OF w(3)] alloc_frame_put_block])
    show "bg_block_bitmap d \<in> bitmap_blocks (s1\<lparr>ks_sbi := w\<rparr>)"
      using d(1) alloc_frame_bitmaps [OF s1(2)] alloc_frame_bitmaps [OF alloc_frame_rsv [OF w(3)]] by (auto simp: bitmap_blocks_def)
  qed
  then have "group_try s g goal my num r k ?s'"
    unfolding group_try_def using w(2,4) out d s1(3)
    by (intro conjI exI [of _ d] exI [of _ m] exI [of _ m']) (simp_all add: put_block_def)
  then show ?thesis using s1(1) w(1) by (auto simp: try_group_def)
qed

lemma group_ok_frame:
  assumes "alloc_frame s s'" "ks_dev s' = ks_dev s"
  shows "group_ok s' g = group_ok s g"
  using alloc_frame_places [OF assms(1)] alloc_frame_sbi [OF assms(1)] assms
  unfolding group_ok_def reserved_block_def by (simp add: alloc_frame_def)

lemma claimed_mono: "claimed m bpg num r k m' \<Longrightarrow> num \<le> num' \<Longrightarrow> claimed m bpg num' r k m'"
  by (auto simp: claimed_def)

text \<open>What a search over groups guarantees.\<close>

definition search_ok :: "kstate \<Rightarrow> nat \<Rightarrow> search_result \<Rightarrow> kstate \<Rightarrow> bool" where
  "search_ok s num res s' \<longleftrightarrow>
     alloc_frame s s' \<and> rsv_inv (ks_sbi s') \<and> (\<forall>x. rsv_owner_ok (ks_sbi s) x \<longrightarrow> rsv_owner_ok (ks_sbi s') x) \<and>
     (case res of
        Io_error \<Rightarrow> False
      | Exhausted k \<Rightarrow> ks_dev s' = ks_dev s \<and> k \<le> num
      | Allocated g r k \<Rightarrow> g < s_groups_count (ks_sbi s) \<and>
          (\<exists>d m m'. lookup_group_desc s g = Some d \<and> ks_dev s (bg_block_bitmap d) = Some m \<and>
             ks_dev s' = (ks_dev s)(bg_block_bitmap d \<mapsto> m') \<and> claimed m (s_blocks_per_group (ks_sbi s)) num r k m'))"

definition group_full :: "kstate \<Rightarrow> nat \<Rightarrow> bool" where
  "group_full s g \<longleftrightarrow> (\<forall>d. lookup_group_desc s g = Some d \<longrightarrow> bg_free_blocks_count d = 0)"

lemma search_ok_trans:
  assumes "search_ok t num' res s'" "alloc_frame s t" "ks_dev t = ks_dev s" "num' \<le> num"
    "\<And>x. rsv_owner_ok (ks_sbi s) x \<Longrightarrow> rsv_owner_ok (ks_sbi t) x"
  shows "search_ok s num res s'"
  using assms alloc_frame_trans [OF assms(2)] alloc_frame_sbi [OF assms(2)] alloc_frame_places(1) [OF assms(2)]
  by (auto simp: search_ok_def split: search_result.splits intro: claimed_mono)

lemma group_try_fail:
  assumes "group_try s g goal my num r k t" "r < 0"
  shows "alloc_frame s t" "ks_dev t = ks_dev s" "k \<le> num" "rsv_inv (ks_sbi t)"
    "\<And>x. rsv_owner_ok (ks_sbi s) x \<Longrightarrow> rsv_owner_ok (ks_sbi t) x"
    "group_ok s g \<Longrightarrow> my = None \<Longrightarrow> goal < 0 \<Longrightarrow> group_full s g"
  using assms by (auto simp: group_try_def group_full_def group_ok_def unat_eq_zero)

lemma group_try_success:
  assumes "group_try s g goal my num r k t" "0 \<le> r" "g < s_groups_count (ks_sbi s)"
  shows "search_ok s num (Allocated g r k) t"
  using assms by (auto simp: group_try_def search_ok_def)

definition next_group :: "nat \<Rightarrow> nat \<Rightarrow> nat" where
  "next_group n g = (if g + 1 \<ge> n then 0 else g + 1)"

lemma next_group_iterate:
  assumes "g < n"
  shows "((next_group n) ^^ j) g = (g + j) mod n"
proof (induction j)
  case (Suc j)
  have "next_group n k = (k + 1) mod n" if "k < n" for k using that by (cases "k + 1 = n") (auto simp: next_group_def)
  then show ?case using Suc assms by (simp add: mod_Suc_eq)
qed (use assms in simp)

lemma search_groups_ok:
  assumes "\<forall>g. g < s_groups_count (ks_sbi s) \<longrightarrow> group_ok s g" "rsv_inv (ks_sbi s)" "0 < s_blocks_per_group (ks_sbi s)"
    "0 < s_groups_count (ks_sbi s)" "rsv_owner_ok (ks_sbi s) my"
  shows "\<exists>res s'. search_groups n locked my windowsz grp num s = Some (res, s') \<and> search_ok s num res s' \<and>
    (my = None \<and> (\<exists>k. res = Exhausted k) \<longrightarrow>
       (\<forall>j. j < n \<longrightarrow> group_full s ((next_group (s_groups_count (ks_sbi s)) ^^ Suc j) grp)))"
  using assms
proof (induction n arbitrary: grp num s)
  case 0
  then show ?case by (simp add: search_ok_def)
next
  case (Suc n)
  let ?N = "s_groups_count (ks_sbi s)"
  define g where "g = next_group ?N grp"
  have g: "g < ?N" "group_ok s g" using Suc.prems(1,4) by (auto simp: g_def next_group_def)
  then obtain d where d: "lookup_group_desc s g = Some d" by (auto simp: group_ok_def)
  let ?free = "unat (bg_free_blocks_count d)"
  have step: "\<forall>j. j < Suc n \<longrightarrow> group_full s ((next_group ?N ^^ Suc j) grp)"
    if "group_full s g" "\<forall>j. j < n \<longrightarrow> group_full s ((next_group ?N ^^ Suc j) g)"
    using that by (auto simp: g_def less_Suc_eq_0_disj funpow_swap1)
  have eq: "search_groups (Suc n) locked my windowsz grp num s =
     (if ?free = 0 \<or> my \<noteq> None \<and> ?free \<le> windowsz div 2 then search_groups n locked my windowsz g num s
      else case try_group locked g (- 1) my num s of
            None \<Rightarrow> None
          | Some (None, s2) \<Rightarrow> Some (Io_error, s2)
          | Some (Some (r, num'), s2) \<Rightarrow>
              if r \<ge> 0 then Some (Allocated g r num', s2) else search_groups n locked my windowsz g num' s2)"
    unfolding search_groups.simps Let_def next_group_def [symmetric] g_def [symmetric] ext2_get_group_desc_Some [OF d] by simp
  show ?case
  proof (cases "?free = 0 \<or> my \<noteq> None \<and> ?free \<le> windowsz div 2")
    case True
    then show ?thesis using Suc.IH [OF Suc.prems, of g num] step eq d
      by (auto simp: group_full_def unat_eq_zero)
  next
    case False
    obtain r k t where t: "try_group locked g (- 1) my num s = Some (Some (r, k), t)" "group_try s g (- 1) my num r k t"
      using try_group_ok [OF g(2) Suc.prems(2,3) _ Suc.prems(5), of "- 1"] by fastforce
    show ?thesis
    proof (cases "0 \<le> r")
      case True
      then show ?thesis using eq False t group_try_success [OF t(2) True g(1)] by auto
    next
      case neg: False
      note f = group_try_fail [OF t(2)]
      have fr: "alloc_frame s t" "ks_dev t = ks_dev s" "k \<le> num" "rsv_inv (ks_sbi t)"
        "\<And>x. rsv_owner_ok (ks_sbi s) x \<Longrightarrow> rsv_owner_ok (ks_sbi t) x" using f neg by auto
      have full: "group_full t x = group_full s x" for x
        by (simp add: group_full_def alloc_frame_places(1) [OF fr(1)])
      obtain res s' where r: "search_groups n locked my windowsz g k t = Some (res, s')" "search_ok t k res s'"
        "my = None \<and> (\<exists>k. res = Exhausted k) \<longrightarrow>
           (\<forall>j. j < n \<longrightarrow> group_full t ((next_group (s_groups_count (ks_sbi t)) ^^ Suc j) g))"
        using Suc.IH [of t g k] Suc.prems fr group_ok_frame [OF fr(1,2)] by (auto simp: alloc_frame_sbi [OF fr(1)])
      moreover have "search_ok s num res s'" by (rule search_ok_trans [OF r(2) fr(1-3,5)])
      ultimately show ?thesis
        using eq False t(1) neg step f(6) g(2) by (auto simp: full alloc_frame_sbi [OF fr(1)])
    qed
  qed
qed

definition all_full :: "kstate \<Rightarrow> bool" where
  "all_full s \<longleftrightarrow> (\<forall>g. g < s_groups_count (ks_sbi s) \<longrightarrow> group_full s g)"

lemma all_groups_visited:
  assumes "\<forall>j. j < n \<longrightarrow> P ((next_group n ^^ Suc j) grp)" "grp < n" "g < n"
  shows "P g"
proof -
  define j where "j = (g + n - Suc grp) mod n"
  have "j < n" using assms(2) by (simp add: j_def)
  then have "P ((grp + Suc j) mod n)" using assms(1) next_group_iterate [OF assms(2), of "Suc j"] by metis
  moreover have "(grp + Suc j) mod n = (Suc grp + (g + n - Suc grp)) mod n" unfolding j_def by (metis add_Suc_shift mod_add_right_eq)
  ultimately show ?thesis using assms(2,3) by simp
qed

lemma search_from_ok:
  assumes ok: "\<forall>g. g < s_groups_count (ks_sbi s) \<longrightarrow> group_ok s g" "rsv_inv (ks_sbi s)" "0 < s_blocks_per_group (ks_sbi s)"
    and grp: "grp < s_groups_count (ks_sbi s)" and my: "rsv_owner_ok (ks_sbi s) my"
  shows "\<exists>res s'. search_from locked goal my windowsz grp num gdp s = Some (res, s') \<and> search_ok s num res s' \<and>
    (my = None \<and> (\<exists>k. res = Exhausted k) \<longrightarrow> all_full s)"
proof (cases "unat (bg_free_blocks_count gdp) > 0")
  case False
  then have "search_from locked goal my windowsz grp num gdp s =
      search_groups (s_groups_count (ks_sbi s)) locked my windowsz grp num s" by (simp add: search_from_def Let_def)
  then show ?thesis
    using search_groups_ok [OF ok _ my, of "s_groups_count (ks_sbi s)" locked windowsz grp num] grp
      all_groups_visited [OF _ grp, of "group_full s"] unfolding all_full_def by force
next
  case True
  let ?goal = "int ((goal - unat (es_first_data_block (ks_es s))) mod s_blocks_per_group (ks_sbi s))"
  obtain r k t where t: "try_group locked grp ?goal my num s = Some (Some (r, k), t)" "group_try s grp ?goal my num r k t"
    using try_group_ok [OF _ ok(2,3) _ my, of grp ?goal locked num] ok(1,3) grp by fastforce
  show ?thesis
  proof (cases "0 \<le> r")
    case r: True
    then show ?thesis using t True group_try_success [OF t(2) r grp] by (simp add: search_from_def Let_def)
  next
    case neg: False
    have fr: "alloc_frame s t" "ks_dev t = ks_dev s" "k \<le> num" "rsv_inv (ks_sbi t)"
      "\<And>x. rsv_owner_ok (ks_sbi s) x \<Longrightarrow> rsv_owner_ok (ks_sbi t) x" using group_try_fail [OF t(2)] neg by auto
    have full: "group_full t x = group_full s x" for x by (simp add: group_full_def alloc_frame_places(1) [OF fr(1)])
    obtain res s' where r: "search_groups (s_groups_count (ks_sbi s)) locked my windowsz grp k t = Some (res, s')" "search_ok t k res s'"
      "my = None \<and> (\<exists>k. res = Exhausted k) \<longrightarrow>
         (\<forall>j. j < s_groups_count (ks_sbi s) \<longrightarrow> group_full s ((next_group (s_groups_count (ks_sbi s)) ^^ Suc j) grp))"
      using search_groups_ok [of t my "s_groups_count (ks_sbi s)" locked windowsz grp k] ok grp my fr group_ok_frame [OF fr(1,2)]
      by (auto simp: alloc_frame_sbi [OF fr(1)] full)
    moreover have "search_ok s num res s'" by (rule search_ok_trans [OF r(2) fr(1-3,5)])
    moreover have "search_from locked goal my windowsz grp num gdp s =
        search_groups (s_groups_count (ks_sbi s)) locked my windowsz grp k t"
      using True t(1) neg by (simp add: search_from_def Let_def)
    ultimately show ?thesis
      using all_groups_visited [OF _ grp, of "group_full s"] unfolding all_full_def by force
  qed
qed

text \<open>Blocks that are free in a sound group are never in a system zone.\<close>

lemma claimed_not_system_zone:
  assumes ok: "group_ok s g" and d: "lookup_group_desc s g = Some d" "ks_dev s (bg_block_bitmap d) = Some m"
    and cl: "claimed m (s_blocks_per_group (ks_sbi s)) num r k m'"
  defines "b \<equiv> nat r + ext2_group_first_block_no s g"
  shows "\<not> system_zone d (s_itb_per_group (ks_sbi s)) b k" "b + k \<le> unat (es_blocks_count (ks_es s))"
proof -
  let ?first = "ext2_group_first_block_no s g"
  have free: "?first + i < unat (es_blocks_count (ks_es s)) \<and> \<not> reserved_block s d (?first + i)"
    if "nat r \<le> i" "i < nat r + k" for i
    using ok d cl that by (auto simp: group_ok_def claimed_def)
  have k: "1 \<le> k" "0 \<le> r" using cl by (auto simp: claimed_def)
  show le: "b + k \<le> unat (es_blocks_count (ks_es s))" using free [of "nat r + (k - 1)"] k unfolding b_def by linarith
  have lt: "b + k \<le> 2 ^ 32" using le unsigned_less [of "es_blocks_count (ks_es s)", where ?'a = nat] by simp
  have run: "\<not> reserved_block s d x" if "b \<le> x" "x < b + k" for x
    using free [of "x - ?first"] that by (simp add: b_def)
  have "x < b + k" if "in_range x b k" for x
  proof -
    have "(int b + int k - 1) mod 2 ^ 32 = int b + int k - 1" using lt k by (intro mod_pos_pos_trivial) auto
    then show ?thesis using that by (simp add: in_range_def)
  qed
  then show "\<not> system_zone d (s_itb_per_group (ks_sbi s)) b k"
    using run k by (auto simp: system_zone_def reserved_block_def in_range_def [of _ b k])
qed

lemma retry_alloc_ok:
  assumes "\<forall>g. g < s_groups_count (ks_sbi s) \<longrightarrow> group_ok s g" "rsv_inv (ks_sbi s)" "0 < s_blocks_per_group (ks_sbi s)"
    and "grp < s_groups_count (ks_sbi s)" "goal_group < s_groups_count (ks_sbi s)"
    and "rsv_owner_ok (ks_sbi s) my" "if my = None then 1 \<le> n else 2 \<le> n"
  shows "\<exists>res s'. retry_alloc n locked goal goal_group my windowsz grp num s = Some (res, s') \<and> search_ok s num res s' \<and>
    ((\<exists>k. res = Exhausted k) \<longrightarrow> all_full s)"
  using assms
proof (induction n arbitrary: grp my windowsz num s)
  case 0
  then show ?case by (simp split: if_splits)
next
  case (Suc n)
  obtain gdp where gdp: "lookup_group_desc s grp = Some gdp" using Suc.prems(1,4) by (auto simp: group_ok_def)
  define my' where "my' = (case my of None \<Rightarrow> None | Some x \<Rightarrow>
      if unat (bg_free_blocks_count gdp) < windowsz \<and> unat (bg_free_blocks_count gdp) > 0 \<and> rsv_is_empty (win (ks_sbi s) x)
      then None else Some x)"
  have my': "rsv_owner_ok (ks_sbi s) my'" "my' = None \<or> my' = my"
    using Suc.prems(6) by (auto simp: my'_def rsv_owner_ok_def split: option.splits)
  obtain res t where t: "search_from locked goal my' windowsz grp num gdp s = Some (res, t)" "search_ok s num res t"
    "my' = None \<and> (\<exists>k. res = Exhausted k) \<longrightarrow> all_full s"
    using search_from_ok [OF Suc.prems(1-4) my'(1)] by blast
  have fr: "alloc_frame s t" "rsv_inv (ks_sbi t)" using t(2) by (simp_all add: search_ok_def)
  note eq = retry_alloc.simps(2) [of n locked goal goal_group my windowsz grp num s,
      unfolded ext2_get_group_desc_Some [OF gdp] prod.case option.case Let_def, folded my'_def]
  show ?case
  proof (cases res)
    case Io_error
    then show ?thesis using t(2) by (simp add: search_ok_def)
  next
    case (Allocated g r k)
    then obtain d m m' where d: "g < s_groups_count (ks_sbi s)" "lookup_group_desc s g = Some d"
      "ks_dev s (bg_block_bitmap d) = Some m" "claimed m (s_blocks_per_group (ks_sbi s)) num r k m'"
      using t(2) by (auto simp: search_ok_def)
    have "\<not> system_zone d (s_itb_per_group (ks_sbi t)) (nat r + ext2_group_first_block_no t g) k"
      using claimed_not_system_zone(1) [OF _ d(2-4)] Suc.prems(1) d(1) alloc_frame_sbi(3) [OF fr(1)] alloc_frame_places(2) [OF fr(1)]
      by simp
    then show ?thesis using eq t(1,2) Allocated d(2) alloc_frame_places(1) [OF fr(1), of g] by simp
  next
    case (Exhausted k)
    show ?thesis
    proof (cases "my' = None")
      case True
      then show ?thesis using eq t Exhausted by simp
    next
      case False
      have k: "k \<le> num" "ks_dev t = ks_dev s" "\<And>x. rsv_owner_ok (ks_sbi s) x \<Longrightarrow> rsv_owner_ok (ks_sbi t) x"
        using t(2) Exhausted by (auto simp: search_ok_def)
      have full: "all_full t = all_full s"
        using alloc_frame_places(1) [OF fr(1)] alloc_frame_sbi(2) [OF fr(1)] by (simp add: all_full_def group_full_def)
      have n: "1 \<le> n" using Suc.prems(7) False my'(2) by (auto split: if_splits)
      obtain res' s' where r: "retry_alloc n locked goal goal_group None 0 goal_group k t = Some (res', s')"
        "search_ok t k res' s'" "(\<exists>k. res' = Exhausted k) \<longrightarrow> all_full t"
        using Suc.IH [of t goal_group None 0 k] Suc.prems fr k(2) n group_ok_frame [OF fr(1) k(2)]
        by (auto simp: alloc_frame_sbi [OF fr(1)] rsv_owner_ok_def)
      then show ?thesis
        using eq t(1) Exhausted False search_ok_trans [OF r(2) fr(1) k(2,1,3)] by (auto simp: full)
    qed
  qed
qed

section \<open>A change in one group\<close>

definition same_geometry :: "kstate \<Rightarrow> kstate \<Rightarrow> bool" where
  "same_geometry s s' \<longleftrightarrow>
     s_blocks_per_group (ks_sbi s') = s_blocks_per_group (ks_sbi s) \<and> s_groups_count (ks_sbi s') = s_groups_count (ks_sbi s) \<and>
     s_itb_per_group (ks_sbi s') = s_itb_per_group (ks_sbi s) \<and> desc_geometry s' = desc_geometry s \<and>
     es_first_data_block (ks_es s') = es_first_data_block (ks_es s) \<and> es_blocks_count (ks_es s') = es_blocks_count (ks_es s)"

lemma same_geometry_first:
  "same_geometry s s' \<Longrightarrow> ext2_group_first_block_no s' g = ext2_group_first_block_no s g"
  by (simp add: same_geometry_def ext2_group_first_block_no_def)

text \<open>Only the free counts of the descriptors may differ.\<close>

definition desc_frame :: "kstate \<Rightarrow> kstate \<Rightarrow> bool" where
  "desc_frame s s' \<longleftrightarrow> same_geometry s s' \<and>
     (\<forall>g. map_option (bg_free_blocks_count_update (\<lambda>_. 0)) (lookup_group_desc s' g) =
        map_option (bg_free_blocks_count_update (\<lambda>_. 0)) (lookup_group_desc s g))"

lemma desc_frame_refl [simp]: "desc_frame s s"
  by (simp add: desc_frame_def same_geometry_def)

lemma desc_frame_trans: "desc_frame s t \<Longrightarrow> desc_frame t u \<Longrightarrow> desc_frame s u"
  by (simp add: desc_frame_def same_geometry_def)

lemma desc_frame_bitmaps: "desc_frame s s' \<Longrightarrow> bitmap_blocks s' = bitmap_blocks s"
proof -
  assume "desc_frame s s'"
  then have "map_option bg_block_bitmap (map_option (bg_free_blocks_count_update (\<lambda>_. 0)) (lookup_group_desc s' g)) =
      map_option bg_block_bitmap (map_option (bg_free_blocks_count_update (\<lambda>_. 0)) (lookup_group_desc s g))" for g
    by (simp only: desc_frame_def)
  then have "map_option bg_block_bitmap (lookup_group_desc s' g) = map_option bg_block_bitmap (lookup_group_desc s g)" for g
    by (simp add: option.map_comp comp_def)
  moreover have "bitmap_blocks t = {b. \<exists>g. map_option bg_block_bitmap (lookup_group_desc t g) = Some b}" for t
    by (auto simp: bitmap_blocks_def)
  ultimately show ?thesis by (simp only:)
qed

lemma alloc_frame_geometry: "alloc_frame s s' \<Longrightarrow> same_geometry s s'"
  using alloc_frame_sbi [of s s'] alloc_frame_places(3) [of s s'] by (simp add: same_geometry_def) (simp add: alloc_frame_def)

lemma free_space_iff:
  assumes "i < s_blocks_per_group (ks_sbi s)"
  shows "ext2_group_first_block_no s g + i \<in> free_space s \<longleftrightarrow>
    g < s_groups_count (ks_sbi s) \<and> (\<exists>m. group_bitmap s g = Some m \<and> \<not> ext2_test_bit m i)"
proof -
  have "h = g \<and> j = i" if "j < s_blocks_per_group (ks_sbi s)"
    "ext2_group_first_block_no s g + i = ext2_group_first_block_no s h + j" for h j
  proof -
    have eq: "g * s_blocks_per_group (ks_sbi s) + i = h * s_blocks_per_group (ks_sbi s) + j"
      using that(2) by (simp add: ext2_group_first_block_no_def)
    have "(g * s_blocks_per_group (ks_sbi s) + i) div s_blocks_per_group (ks_sbi s) = g"
      "(h * s_blocks_per_group (ks_sbi s) + j) div s_blocks_per_group (ks_sbi s) = h" using assms that(1) by simp_all
    then show ?thesis using eq by simp
  qed
  then show ?thesis using assms unfolding free_space_def by blast
qed

lemma free_space_eqI:
  assumes "0 < s_blocks_per_group (ks_sbi s)" "same_geometry s s'"
    and "\<And>g i. i < s_blocks_per_group (ks_sbi s) \<Longrightarrow> g < s_groups_count (ks_sbi s) \<Longrightarrow>
      (\<exists>m. group_bitmap s' g = Some m \<and> \<not> ext2_test_bit m i) \<longleftrightarrow> ext2_group_first_block_no s g + i \<in> X"
    and "\<And>x. x \<in> X \<Longrightarrow> \<exists>g i. x = ext2_group_first_block_no s g + i \<and> i < s_blocks_per_group (ks_sbi s) \<and> g < s_groups_count (ks_sbi s)"
  shows "free_space s' = X"
proof (intro set_eqI iffI)
  fix x assume "x \<in> free_space s'"
  then obtain g i m where "x = ext2_group_first_block_no s g + i" "g < s_groups_count (ks_sbi s)"
    "i < s_blocks_per_group (ks_sbi s)" "group_bitmap s' g = Some m" "\<not> ext2_test_bit m i"
    using same_geometry_first [OF assms(2)] assms(2) by (auto simp: free_space_def same_geometry_def)
  then show "x \<in> X" using assms(3) by blast
next
  fix x assume "x \<in> X"
  then obtain g i where x: "x = ext2_group_first_block_no s g + i" "i < s_blocks_per_group (ks_sbi s)" "g < s_groups_count (ks_sbi s)"
    using assms(4) by blast
  then have "\<exists>m. group_bitmap s' g = Some m \<and> \<not> ext2_test_bit m i" using assms(3) \<open>x \<in> X\<close> by blast
  then show "x \<in> free_space s'"
    using free_space_iff [of i s' g] x assms(2) same_geometry_first [OF assms(2)] by (simp add: same_geometry_def)
qed

lemma free_space_grid:
  "x \<in> free_space s \<Longrightarrow> \<exists>g i. x = ext2_group_first_block_no s g + i \<and> i < s_blocks_per_group (ks_sbi s) \<and> g < s_groups_count (ks_sbi s)"
  unfolding free_space_def by blast

text \<open>
  A new bitmap and a matching free count for one group: the state stays sound, and the free space
  changes in the blocks where the bitmaps differ.
\<close>

lemma group_change:
  fixes s g
  defines "bpg \<equiv> s_blocks_per_group (ks_sbi s)" and "first \<equiv> ext2_group_first_block_no s g"
  assumes inv: "balloc_inv s" and geo: "same_geometry s s'" and rsv: "rsv_inv (ks_sbi s')"
    and g: "g < s_groups_count (ks_sbi s)" and d: "lookup_group_desc s g = Some d" "ks_dev s (bg_block_bitmap d) = Some m"
    and dev: "ks_dev s' = (ks_dev s)(bg_block_bitmap d \<mapsto> m')"
    and lk: "\<And>h. lookup_group_desc s' h = (if h = g then Some (d\<lparr>bg_free_blocks_count := c\<rparr>) else lookup_group_desc s h)"
    and c: "unat c = card (bm.free_bits m' bpg)"
    and free: "\<And>i. i < bpg \<Longrightarrow> \<not> ext2_test_bit m' i \<Longrightarrow>
      first + i < unat (es_blocks_count (ks_es s)) \<and> \<not> reserved_block s d (first + i)"
  shows "balloc_inv s'"
    and "\<And>h. group_bitmap s' h = (if h = g then Some m' else if h < s_groups_count (ks_sbi s) then group_bitmap s h else group_bitmap s' h)"
proof -
  note fb = same_geometry_first [OF geo]
  have geo': "s_blocks_per_group (ks_sbi s') = bpg" "s_groups_count (ks_sbi s') = s_groups_count (ks_sbi s)"
    "s_itb_per_group (ks_sbi s') = s_itb_per_group (ks_sbi s)" "desc_geometry s' = desc_geometry s"
    "es_blocks_count (ks_es s') = es_blocks_count (ks_es s)" using geo by (simp_all add: same_geometry_def bpg_def)
  have other: "bg_block_bitmap e \<noteq> bg_block_bitmap d"
    if "h \<noteq> g" "h < s_groups_count (ks_sbi s)" "lookup_group_desc s h = Some e" for h e
    using inv that g d(1) unfolding balloc_inv_def inj_on_def by force
  have ok: "group_ok s' h" if h: "h < s_groups_count (ks_sbi s)" for h
  proof (cases "h = g")
    case True
    then show ?thesis using lk dev c free
      by (auto simp: group_ok_def reserved_block_def fb geo' first_def bpg_def)
  next
    case False
    have "group_ok s h" using inv h by (simp add: balloc_inv_def)
    then obtain e k where e: "lookup_group_desc s h = Some e" "ks_dev s (bg_block_bitmap e) = Some k"
      "unat (bg_free_blocks_count e) = card (bm.free_bits k bpg)"
      "\<forall>i. i < bpg \<longrightarrow> \<not> ext2_test_bit k i \<longrightarrow> ext2_group_first_block_no s h + i < unat (es_blocks_count (ks_es s)) \<and>
         \<not> reserved_block s e (ext2_group_first_block_no s h + i)" by (auto simp: group_ok_def bpg_def)
    then have "lookup_group_desc s' h = Some e" "ks_dev s' (bg_block_bitmap e) = Some k"
      using lk False dev other [OF False h e(1)] by simp_all
    then show ?thesis using e(3,4) unfolding group_ok_def reserved_block_def fb geo' by blast
  qed
  have "map_option bg_block_bitmap (lookup_group_desc s' h) = map_option bg_block_bitmap (lookup_group_desc s h)" for h
    using lk d(1) by simp
  then show "balloc_inv s'"
    using inv ok rsv by (simp add: balloc_inv_def geo' fb bpg_def inj_on_def)
  show "group_bitmap s' h = (if h = g then Some m' else if h < s_groups_count (ks_sbi s) then group_bitmap s h else group_bitmap s' h)" for h
  proof (cases "h = g \<or> \<not> h < s_groups_count (ks_sbi s)")
    case True
    then show ?thesis using lk dev by (auto simp: group_bitmap_def)
  next
    case False
    then show ?thesis using lk dev other [of h] by (cases "lookup_group_desc s h") (auto simp: group_bitmap_def)
  qed
qed

lemma free_count_adjust:
  fixes f :: u16
  assumes "int (unat f) + c = int n" "n < 2 ^ 16"
  shows "unat (f + of_int c) = n"
proof -
  have "f + of_int c = of_int (int (unat f) + c)" by simp
  also have "\<dots> = of_nat n" by (simp only: assms(1) of_int_of_nat_eq)
  finally show ?thesis using assms(2) by (simp add: unsigned_of_nat take_bit_nat_eq_self)
qed

lemma upd_inode_keeps [simp]:
  "ks_sbi (upd_inode i f s) = ks_sbi s" "ks_es (upd_inode i f s) = ks_es s" "ks_sb (upd_inode i f s) = ks_sb s"
  "ks_dev (upd_inode i f s) = ks_dev s" "ks_gdesc (upd_inode i f s) = ks_gdesc s"
  "ks_icache (upd_inode i f s) = (ks_icache s)(i := map_option f (ks_icache s i))"
  by (auto simp: upd_inode_def split: option.splits)

lemma lookup_desc_geometry_cong:
  assumes "ks_gdesc s' = ks_gdesc s" "s_groups_count (ks_sbi s') = s_groups_count (ks_sbi s)"
    "s_desc_per_block (ks_sbi s') = s_desc_per_block (ks_sbi s)" "s_desc_per_block_bits (ks_sbi s') = s_desc_per_block_bits (ks_sbi s)"
  shows "lookup_group_desc s' g = lookup_group_desc s g"
  using assms by (simp add: lookup_group_desc_def group_desc_index_def group_desc_offset_def)

lemma bitmap_blocks_upd_inode [simp]: "bitmap_blocks (upd_inode i f s) = bitmap_blocks s"
  by (simp add: bitmap_blocks_def lookup_desc_geometry_cong [of "upd_inode i f s" s])

lemma group_adjust_blocks_lookup:
  assumes "desc_geometry s" "lookup_group_desc s g = Some d"
  shows "lookup_group_desc (group_adjust_blocks g c s) h =
    (if h = g then Some (d\<lparr>bg_free_blocks_count := bg_free_blocks_count d + of_int c\<rparr>) else lookup_group_desc s h)"
proof -
  have "lookup_group_desc (group_adjust_blocks g c s) h =
      (if c = 0 then lookup_group_desc s h else lookup_group_desc (upd_group_desc g
                 (\<lambda>d. d\<lparr>bg_free_blocks_count := bg_free_blocks_count d + of_int c\<rparr>) s) h)"
    unfolding group_adjust_blocks_def Let_def by (auto intro: lookup_desc_geometry_cong)
  then show ?thesis using assms by (simp add: lookup_upd_group_desc)
qed

lemma group_adjust_blocks_keeps [simp]:
  "ks_sbi (group_adjust_blocks g c s) = ks_sbi s" "ks_es (group_adjust_blocks g c s) = ks_es s"
  "ks_dev (group_adjust_blocks g c s) = ks_dev s" "ks_icache (group_adjust_blocks g c s) = ks_icache s"
  "s_blocksize_bits (ks_sb (group_adjust_blocks g c s)) = s_blocksize_bits (ks_sb s)"
  "s_blocksize (ks_sb (group_adjust_blocks g c s)) = s_blocksize (ks_sb s)"
  "desc_geometry (group_adjust_blocks g c s) = desc_geometry s"
  by (simp_all add: group_adjust_blocks_def Let_def desc_geometry_def)

lemma data_frame_group_adjust [simp]: "data_frame s (group_adjust_blocks g c s)"
  by (simp add: data_frame_def group_adjust_blocks_def Let_def)

lemma bitmap_blocks_dquot_free [simp]: "bitmap_blocks (dquot_free_block_nodirty ino n s) = bitmap_blocks s"
  by (simp add: dquot_free_block_nodirty_def)

lemma data_frame_dquot_free [simp]: "data_frame s (dquot_free_block_nodirty ino n s)"
  by (simp add: dquot_free_block_nodirty_def data_frame_upd_inode)

lemma data_frame_give_back: "data_frame s (upd_inode ino mark_inode_dirty (dquot_free_block_nodirty ino n s))"
  by (rule data_frame_trans [OF data_frame_dquot_free data_frame_upd_inode]) simp_all

text \<open>The run that a successful search claimed, as blocks of the file system.\<close>

lemma claimed_run_free:
  assumes inv: "balloc_inv s" and g: "g < s_groups_count (ks_sbi s)" "group_bitmap s g = Some m"
    and cl: "claimed m (s_blocks_per_group (ks_sbi s)) num r k m'"
  defines "b \<equiv> nat r + ext2_group_first_block_no s g"
  shows "{b..<b + k} \<subseteq> free_space s"
proof
  fix x assume x: "x \<in> {b..<b + k}"
  define i where "i = x - ext2_group_first_block_no s g"
  have i: "x = ext2_group_first_block_no s g + i" "nat r \<le> i" "i < nat r + k" using x by (auto simp: i_def b_def)
  then have "i < s_blocks_per_group (ks_sbi s)" "\<not> ext2_test_bit m i" using cl by (auto simp: claimed_def)
  then show "x \<in> free_space s" unfolding i(1) using free_space_iff g by blast
qed

lemma run_coordinates:
  fixes g
  assumes "r + int k \<le> int (s_blocks_per_group (ks_sbi s))" "0 \<le> r" "i < s_blocks_per_group (ks_sbi s)"
  defines "b \<equiv> nat r + ext2_group_first_block_no s g"
  shows "ext2_group_first_block_no s h + i \<in> {b..<b + k} \<longleftrightarrow> h = g \<and> r \<le> int i \<and> int i < r + int k"
proof (cases "h = g")
  case True
  then show ?thesis using assms(2) by (auto simp: b_def)
next
  case False
  let ?bpg = "s_blocks_per_group (ks_sbi s)"
  have "h = g" if x: "ext2_group_first_block_no s h + i \<in> {b..<b + k}"
  proof -
    define j where "j = ext2_group_first_block_no s h + i - ext2_group_first_block_no s g"
    have j: "ext2_group_first_block_no s h + i = ext2_group_first_block_no s g + j" "j < ?bpg"
      using x assms(1,2) by (auto simp: b_def j_def)
    then have "(h * ?bpg + i) div ?bpg = (g * ?bpg + j) div ?bpg" by (simp add: ext2_group_first_block_no_def)
    then show ?thesis using assms(3) j(2) by simp
  qed
  then show ?thesis using False by blast
qed

text \<open>The state after the counters were adjusted.\<close>

lemma claimed_change:
  assumes inv: "balloc_inv s" and res: "search_ok s num (Allocated g r k) t"
    and s': "same_geometry t s'" "rsv_inv (ks_sbi s')" "ks_dev s' = ks_dev t"
    "\<And>h. lookup_group_desc s' h = lookup_group_desc (group_adjust_blocks g (- int k) t) h"
  defines "b \<equiv> nat r + ext2_group_first_block_no s g"
  shows "balloc_inv s'" "{b..<b + k} \<subseteq> free_space s" "free_space s' = free_space s - {b..<b + k}"
    "b + k \<le> unat (es_blocks_count (ks_es s))" "1 \<le> k" "k \<le> max 1 num"
proof -
  let ?bpg = "s_blocks_per_group (ks_sbi s)"
  obtain d m m' where fr: "alloc_frame s t" and d: "g < s_groups_count (ks_sbi s)" "lookup_group_desc s g = Some d"
    "ks_dev s (bg_block_bitmap d) = Some m" "ks_dev t = (ks_dev s)(bg_block_bitmap d \<mapsto> m')"
    "claimed m ?bpg num r k m'" using res by (auto simp: search_ok_def)
  have bpg: "0 < ?bpg" "?bpg < 2 ^ 16" and ok: "group_ok s g" and dg: "desc_geometry s"
    using inv d(1) by (auto simp: balloc_inv_def)
  note cnt = claimed_free_count [OF d(5)]
  have "card (bm.free_bits m ?bpg) \<le> ?bpg" using card_mono [of "{..<?bpg}" "bm.free_bits m ?bpg"] by (auto simp: bm.free_bits_def)
  then have c: "unat (bg_free_blocks_count d + of_int (- int k)) = card (bm.free_bits m' ?bpg)"
    using cnt bpg(2) ok d(2,3) by (intro free_count_adjust) (auto simp: group_ok_def)
  have geo: "same_geometry s s'" using alloc_frame_geometry [OF fr] s'(1) by (simp add: same_geometry_def)
  have lk: "lookup_group_desc s' h = (if h = g then Some (d\<lparr>bg_free_blocks_count := bg_free_blocks_count d + of_int (- int k)\<rparr>)
      else lookup_group_desc s h)" for h
    using group_adjust_blocks_lookup [of t g d "- int k" h] alloc_frame_places [OF fr] d(2) dg s'(4) by simp
  have fr': "ext2_group_first_block_no s g + i < unat (es_blocks_count (ks_es s)) \<and>
      \<not> reserved_block s d (ext2_group_first_block_no s g + i)" if "i < ?bpg" "\<not> ext2_test_bit m' i" for i
    using ok d(2,3,5) that by (auto simp: group_ok_def claimed_def)
  note ch = group_change [OF inv geo s'(2) d(1-3) _ lk c fr', unfolded s'(3), OF d(4)]
  show "balloc_inv s'" by (rule ch(1))
  have gm: "group_bitmap s g = Some m" using d by (simp add: group_bitmap_def)
  show sub: "{b..<b + k} \<subseteq> free_space s" unfolding b_def by (rule claimed_run_free [OF inv d(1) gm d(5)])
  show "b + k \<le> unat (es_blocks_count (ks_es s))" unfolding b_def by (rule claimed_not_system_zone [OF ok d(2,3,5)])
  show "1 \<le> k" "k \<le> max 1 num" using d(5) by (auto simp: claimed_def)
  show "free_space s' = free_space s - {b..<b + k}"
  proof (rule free_space_eqI [OF bpg(1) geo])
    fix h i assume i: "i < ?bpg" and h: "h < s_groups_count (ks_sbi s)"
    show "(\<exists>x. group_bitmap s' h = Some x \<and> \<not> ext2_test_bit x i) \<longleftrightarrow>
        ext2_group_first_block_no s h + i \<in> free_space s - {b..<b + k}"
    proof -
      have run: "ext2_group_first_block_no s h + i \<in> {b..<b + k} \<longleftrightarrow> h = g \<and> r \<le> int i \<and> int i < r + int k"
        unfolding b_def using d(5) i by (intro run_coordinates) (simp_all add: claimed_def)
      show ?thesis unfolding Diff_iff run using ch(2) [of h] gm d(5) free_space_iff [OF i, of h] h
        by (cases "h = g") (auto simp: claimed_def)
    qed
  qed (use free_space_grid in blast)
qed

lemma space_cong:
  assumes geo: "same_geometry s s'" and lk: "\<And>g. lookup_group_desc s' g = lookup_group_desc s g" and dev: "ks_dev s' = ks_dev s"
  shows "free_space s' = free_space s" "balloc_inv s \<Longrightarrow> rsv_inv (ks_sbi s') \<Longrightarrow> balloc_inv s'"
proof -
  note fb = same_geometry_first [OF geo]
  have geo': "s_blocks_per_group (ks_sbi s') = s_blocks_per_group (ks_sbi s)" "s_groups_count (ks_sbi s') = s_groups_count (ks_sbi s)"
    "s_itb_per_group (ks_sbi s') = s_itb_per_group (ks_sbi s)" "desc_geometry s' = desc_geometry s"
    "es_blocks_count (ks_es s') = es_blocks_count (ks_es s)" using geo by (simp_all add: same_geometry_def)
  show "free_space s' = free_space s" by (simp add: free_space_def group_bitmap_def lk dev fb geo')
  have "group_ok s' g = group_ok s g" for g by (simp add: group_ok_def reserved_block_def lk dev fb geo')
  then show "balloc_inv s \<Longrightarrow> rsv_inv (ks_sbi s') \<Longrightarrow> balloc_inv s'" by (simp add: balloc_inv_def lk fb geo')
qed

lemma all_full_free_space:
  assumes "balloc_inv s" "all_full s"
  shows "free_space s = {}"
proof -
  have "ext2_test_bit m i" if "g < s_groups_count (ks_sbi s)" "i < s_blocks_per_group (ks_sbi s)" "group_bitmap s g = Some m" for g i m
  proof -
    have "group_ok s g" "group_full s g" using assms that(1) by (auto simp: balloc_inv_def all_full_def)
    then have "bm.free_bits m (s_blocks_per_group (ks_sbi s)) = {}"
      using that(3) by (auto simp: group_ok_def group_full_def group_bitmap_def)
    then show ?thesis using that(2) by (auto simp: bm.free_bits_def)
  qed
  then show ?thesis by (auto simp: free_space_def)
qed

lemma blocks_512_add:
  assumes "9 \<le> s_blocksize_bits (ks_sb s)"
  shows "blocks_512 s (a + b) = blocks_512 s a + blocks_512 s b"
proof -
  have "2 ^ s_blocksize_bits (ks_sb s) = (512::nat) * 2 ^ (s_blocksize_bits (ks_sb s) - 9)"
    using power_add [of "2::nat" 9 "s_blocksize_bits (ks_sb s) - 9"] assms by simp
  then have n: "n * 2 ^ s_blocksize_bits (ks_sb s) div 512 = n * 2 ^ (s_blocksize_bits (ks_sb s) - 9)" for n :: nat by simp
  show ?thesis by (simp only: blocks_512_def n) (simp add: distrib_right)
qed

lemma blocks_512_cong: "s_blocksize_bits (ks_sb s') = s_blocksize_bits (ks_sb s) \<Longrightarrow> blocks_512 s' = blocks_512 s"
  by (simp add: blocks_512_def fun_eq_iff)

lemma goal_group_ok:
  assumes "balloc_inv s"
  shows "(goal_block goal s - unat (es_first_data_block (ks_es s))) div s_blocks_per_group (ks_sbi s) < s_groups_count (ks_sbi s)"
proof -
  have "goal_block goal s - unat (es_first_data_block (ks_es s)) < s_groups_count (ks_sbi s) * s_blocks_per_group (ks_sbi s)"
    using assms by (auto simp: goal_block_def balloc_inv_def ext2_group_first_block_no_def)
  then show ?thesis by (simp add: less_mult_imp_div_less)
qed

text \<open>The search of \<open>ext2_new_blocks\<close> after the checks: it ends, with blocks or with all groups full.\<close>

lemma new_blocks_search:
  assumes inv: "balloc_inv s" and my: "rsv_owner_ok (ks_sbi s) my"
  shows "\<exists>res t. retry_alloc (s_groups_count (ks_sbi s) * s_blocks_per_group (ks_sbi s) + 2) locked (goal_block goal s)
      ((goal_block goal s - unat (es_first_data_block (ks_es s))) div s_blocks_per_group (ks_sbi s)) my windowsz
      ((goal_block goal s - unat (es_first_data_block (ks_es s))) div s_blocks_per_group (ks_sbi s)) count s = Some (res, t) \<and>
    search_ok s count res t \<and> ((\<exists>k. res = Exhausted k) \<longrightarrow> free_space s = {})"
proof -
  have i: "\<forall>g. g < s_groups_count (ks_sbi s) \<longrightarrow> group_ok s g" "rsv_inv (ks_sbi s)" "0 < s_blocks_per_group (ks_sbi s)"
    using inv by (simp_all add: balloc_inv_def)
  have "if my = None then 1 \<le> s_groups_count (ks_sbi s) * s_blocks_per_group (ks_sbi s) + 2
      else 2 \<le> s_groups_count (ks_sbi s) * s_blocks_per_group (ks_sbi s) + 2" by simp
  from retry_alloc_ok [OF i goal_group_ok [OF inv] goal_group_ok [OF inv] my this]
  show ?thesis using all_full_free_space [OF inv] by metis
qed

text \<open>The two ways out.\<close>

lemma undo_alloc_ok:
  assumes "balloc_inv s" "alloc_frame s t" "ks_dev t = ks_dev s" "rsv_inv (ks_sbi t)" "undo_alloc ino count err t = (res, s')"
  shows "res = (0, count, err)" "balloc_inv s'" "free_space s' = free_space s"
    "s_freeblocks_counter (ks_sbi s') = s_freeblocks_counter (ks_sbi s)"
    "ks_icache s ino = Some ei \<Longrightarrow> \<exists>ei'. ks_icache s' ino = Some ei' \<and>
       i_blocks (vfs_inode ei') = i_blocks (vfs_inode ei) - blocks_512 s count"
    "desc_frame s s'" "data_frame s s'"
proof -
  have s': "s' = upd_inode ino mark_inode_dirty (dquot_free_block_nodirty ino count t)" and "res = (0, count, err)"
    using assms(5) by (simp_all add: undo_alloc_def)
  then show "res = (0, count, err)" by simp
  have k: "ks_sbi s' = ks_sbi t" "ks_es s' = ks_es t" "ks_gdesc s' = ks_gdesc t" "ks_dev s' = ks_dev s"
    by (simp_all add: s' dquot_free_block_nodirty_def assms(3))
  have lk: "lookup_group_desc s' g = lookup_group_desc s g" for g
    using lookup_desc_geometry_cong [of s' t g] alloc_frame_places(1) [OF assms(2), of g] by (simp add: k)
  have geo: "same_geometry s s'"
    using alloc_frame_geometry [OF assms(2)] by (simp add: same_geometry_def k desc_geometry_def)
  show "balloc_inv s'" "free_space s' = free_space s" using space_cong [OF geo lk k(4)] assms(1,4) by (simp_all add: k)
  show "desc_frame s s'" using geo lk by (simp add: desc_frame_def)
  show "data_frame s s'"
    using data_frame_trans [of s t s'] assms(2) alloc_frame_bitmaps [OF assms(2)]
    by (simp add: s' data_frame_give_back alloc_frame_def)
  show "s_freeblocks_counter (ks_sbi s') = s_freeblocks_counter (ks_sbi s)"
    using alloc_frame_sbi(6) [OF assms(2)] by (simp add: k)
  show "\<exists>ei'. ks_icache s' ino = Some ei' \<and> i_blocks (vfs_inode ei') = i_blocks (vfs_inode ei) - blocks_512 s count"
    if "ks_icache s ino = Some ei"
    using that assms(2) blocks_512_cong [of t s] by (simp add: s' dquot_free_block_nodirty_def alloc_frame_def mark_inode_dirty_def upd_vfs_def)
qed

lemma finish_alloc_ok:
  assumes "balloc_inv s" "search_ok s count (Allocated g r k) t" "finish_alloc ino count g r k t = (res, s')" "1 \<le> count"
  defines "b \<equiv> nat r + ext2_group_first_block_no s g"
  shows "res = (b, k, 0)" "balloc_inv s'" "1 \<le> k" "k \<le> count" "{b..<b + k} \<subseteq> free_space s" "free_space s' = free_space s - {b..<b + k}"
    "s_freeblocks_counter (ks_sbi s') = s_freeblocks_counter (ks_sbi s) - int k"
    "ks_icache s ino = Some ei \<Longrightarrow> \<exists>ei'. ks_icache s' ino = Some ei' \<and>
       i_blocks (vfs_inode ei') = i_blocks (vfs_inode ei) - blocks_512 s (count - k)"
    "desc_frame s s'" "data_frame s s'"
proof -
  have fr: "alloc_frame s t" "rsv_inv (ks_sbi t)" using assms(2) by (simp_all add: search_ok_def)
  define s1 where "s1 = group_adjust_blocks g (- int k) t"
  define s2 where "s2 = s1\<lparr>ks_sbi := (ks_sbi s1)\<lparr>s_freeblocks_counter := s_freeblocks_counter (ks_sbi s1) - int k\<rparr>\<rparr>"
  define s3 where "s3 = upd_inode ino mark_inode_dirty (dquot_free_block_nodirty ino (count - k) s2)"
  have k: "ks_sbi s3 = (ks_sbi t)\<lparr>s_freeblocks_counter := s_freeblocks_counter (ks_sbi t) - int k\<rparr>" "ks_es s3 = ks_es t"
    "ks_gdesc s3 = ks_gdesc s1" "ks_dev s3 = ks_dev t" by (simp_all add: s3_def s2_def s1_def dquot_free_block_nodirty_def)
  have lk: "lookup_group_desc s3 h = lookup_group_desc (group_adjust_blocks g (- int k) t) h" for h
    using lookup_desc_geometry_cong [of s3 s1 h] by (simp add: k s1_def)
  have geo: "same_geometry t s3" by (simp add: same_geometry_def k desc_geometry_def)
  have rsv: "rsv_inv (ks_sbi s3)" using fr(2) rsv_inv_cong [of "ks_sbi s3" "ks_sbi t"] by (simp add: k)
  note ch = claimed_change [OF assms(1,2) geo rsv k(4) lk, folded b_def]
  have first: "nat r + ext2_group_first_block_no t g = b" using alloc_frame_places(2) [OF fr(1)] by (simp add: b_def)
  have "\<not> b + k - 1 \<ge> unat (es_blocks_count (ks_es t))" using ch(4,5) fr(1) by (simp add: alloc_frame_def)
  then have "finish_alloc ino count g r k t = ((b, k, 0), s3)"
    by (simp add: finish_alloc_def first Let_def s1_def s2_def s3_def)
  then have res: "res = (b, k, 0)" "s' = s3" using assms(3) by simp_all
  obtain d where "lookup_group_desc s g = Some d" "desc_geometry s" using assms(1,2) by (auto simp: search_ok_def balloc_inv_def)
  then show df: "desc_frame s s'"
    using lk group_adjust_blocks_lookup [of t g d "- int k"] alloc_frame_places [OF fr(1)] geo alloc_frame_geometry [OF fr(1)]
    by (simp add: desc_frame_def same_geometry_def res)
  have b2: "bitmap_blocks s2 = bitmap_blocks s1"
    using lookup_desc_geometry_cong [of s2 s1] by (simp add: s2_def bitmap_blocks_def)
  have t3: "data_frame s1 s2" "data_frame s2 s3" "bitmap_blocks s3 = bitmap_blocks s2"
    by (simp add: s2_def data_frame_def sbi_core_def) (simp_all add: s3_def data_frame_give_back)
  have "data_frame t s3" "bitmap_blocks t = bitmap_blocks s3"
    using data_frame_trans [OF data_frame_trans [of t s1 s2] t3(2)] t3 b2 desc_frame_bitmaps [OF df] alloc_frame_bitmaps [OF fr(1)]
    by (simp_all add: s1_def res)
  then show "data_frame s s'"
    using data_frame_trans [of s t s3] fr(1) alloc_frame_bitmaps [OF fr(1)] by (simp add: res alloc_frame_def)
  show "res = (b, k, 0)" "1 \<le> k" "k \<le> count" using res ch(5,6) assms(4) by simp_all
  show "balloc_inv s'" "{b..<b + k} \<subseteq> free_space s" "free_space s' = free_space s - {b..<b + k}" using res ch by simp_all
  show "s_freeblocks_counter (ks_sbi s') = s_freeblocks_counter (ks_sbi s) - int k"
    using alloc_frame_sbi(6) [OF fr(1)] by (simp add: res k)
  show "\<exists>ei'. ks_icache s' ino = Some ei' \<and> i_blocks (vfs_inode ei') = i_blocks (vfs_inode ei) - blocks_512 s (count - k)"
    if "ks_icache s ino = Some ei"
    using that fr(1) blocks_512_cong [of s2 s]
    by (simp add: res s3_def dquot_free_block_nodirty_def s2_def s1_def alloc_frame_def mark_inode_dirty_def upd_vfs_def)
qed

section \<open>Properties of the allocation\<close>

text \<open>What a caller may rely on, in terms of the free space.\<close>

definition new_blocks_spec ::
  "balloc_env \<Rightarrow> nat \<Rightarrow> nat \<Rightarrow> kstate \<Rightarrow> nat \<Rightarrow> nat \<Rightarrow> int \<Rightarrow> kstate \<Rightarrow> bool" where
  "new_blocks_spec e ino count s b num err s' \<longleftrightarrow>
     (if err = 0
      then 1 \<le> num \<and> num \<le> count \<and> {b..<b + num} \<subseteq> free_space s \<and> free_space s' = free_space s - {b..<b + num} \<and>
        s_freeblocks_counter (ks_sbi s') = s_freeblocks_counter (ks_sbi s) - int num
      else b = 0 \<and> num = count \<and> free_space s' = free_space s \<and>
        s_freeblocks_counter (ks_sbi s') = s_freeblocks_counter (ks_sbi s) \<and>
        (err = be_quota e \<or> err = - ENOSPC \<and> (\<not> ext2_has_free_blocks e s \<or> free_space s = {}))) \<and>
     (\<forall>ei. ks_icache s ino = Some ei \<longrightarrow> (\<exists>ei'. ks_icache s' ino = Some ei' \<and>
        i_blocks (vfs_inode ei') = i_blocks (vfs_inode ei) + blocks_512 s (if err = 0 then num else 0))) \<and>
     desc_frame s s' \<and> data_frame s s'"

lemma new_blocks_start:
  fixes e ino count s
  assumes "be_quota e = 0" "balloc_inv s"
  defines "s0 \<equiv> dquot_alloc_block e ino count s"
  shows "ks_sbi s0 = ks_sbi s" "balloc_inv s0" "free_space s0 = free_space s"
    "ext2_has_free_blocks e s0 = ext2_has_free_blocks e s" "blocks_512 s0 = blocks_512 s"
    "ks_icache s ino = Some ei \<Longrightarrow> \<exists>ei0. ks_icache s0 ino = Some ei0 \<and>
       i_blocks (vfs_inode ei0) = i_blocks (vfs_inode ei) + blocks_512 s count"
    "desc_frame s s0" "data_frame s s0"
proof -
  have k: "ks_sbi s0 = ks_sbi s" "ks_es s0 = ks_es s" "ks_gdesc s0 = ks_gdesc s" "ks_dev s0 = ks_dev s" "ks_sb s0 = ks_sb s"
    using assms(1) by (simp_all add: s0_def dquot_alloc_block_def)
  show "ks_sbi s0 = ks_sbi s" by (rule k)
  have lk: "lookup_group_desc s0 g = lookup_group_desc s g" for g by (rule lookup_desc_geometry_cong) (simp_all add: k)
  have geo: "same_geometry s s0" by (simp add: same_geometry_def k desc_geometry_def)
  show "free_space s0 = free_space s" by (rule space_cong(1) [OF geo lk k(4)])
  show "balloc_inv s0" using space_cong(2) [OF geo lk k(4) assms(2)] assms(2) by (simp add: k balloc_inv_def)
  show "ext2_has_free_blocks e s0 = ext2_has_free_blocks e s" by (simp add: ext2_has_free_blocks_def k)
  show "blocks_512 s0 = blocks_512 s" by (rule blocks_512_cong) (simp add: k)
  show "desc_frame s s0" using geo lk by (simp add: desc_frame_def)
  show "data_frame s s0" using assms(1) by (simp add: s0_def dquot_alloc_block_def data_frame_upd_inode)
  show "\<exists>ei0. ks_icache s0 ino = Some ei0 \<and> i_blocks (vfs_inode ei0) = i_blocks (vfs_inode ei) + blocks_512 s count"
    if "ks_icache s ino = Some ei" using that assms(1) by (simp add: s0_def dquot_alloc_block_def upd_vfs_def)
qed

lemma new_blocks_fail:
  assumes q: "be_quota e = 0" and inv: "balloc_inv s"
    and t: "alloc_frame (dquot_alloc_block e ino count s) t" "ks_dev t = ks_dev (dquot_alloc_block e ino count s)" "rsv_inv (ks_sbi t)"
    and r: "\<not> ext2_has_free_blocks e s \<or> free_space s = {}"
  shows "\<exists>b num err s'. Some (undo_alloc ino count (- ENOSPC) t) = Some ((b, num, err), s') \<and> balloc_inv s' \<and>
      new_blocks_spec e ino count s b num err s'"
proof -
  note st = new_blocks_start [OF q inv, where ino = ino and count = count]
  obtain s' where u: "undo_alloc ino count (- ENOSPC) t = ((0, count, - ENOSPC), s')"
    using undo_alloc_ok(1) [OF st(2) t surjective_pairing] by (metis surjective_pairing)
  note un = undo_alloc_ok [OF st(2) t u]
  have "\<exists>ei'. ks_icache s' ino = Some ei' \<and> i_blocks (vfs_inode ei') = i_blocks (vfs_inode ei)"
    if ei: "ks_icache s ino = Some ei" for ei
  proof -
    obtain ei0 where "ks_icache (dquot_alloc_block e ino count s) ino = Some ei0"
      "i_blocks (vfs_inode ei0) = i_blocks (vfs_inode ei) + blocks_512 s count" using st(6) [OF ei] by blast
    then show ?thesis using un(5) st(5) by fastforce
  qed
  moreover have "data_frame s s'" by (rule data_frame_trans [OF st(8) un(7) desc_frame_bitmaps [OF st(7)]])
  ultimately show ?thesis
    using u un(2-4) st(1,3) r desc_frame_trans [OF st(7) un(6)] by (simp add: new_blocks_spec_def blocks_512_def)
qed

lemma new_blocks_ok:
  assumes inv: "balloc_inv s" and ino: "ino \<noteq> 0" and count: "1 \<le> count" and bits: "9 \<le> s_blocksize_bits (ks_sb s)"
  shows "\<exists>b num err s'. ext2_new_blocks e ino goal count s = Some ((b, num, err), s') \<and> balloc_inv s' \<and>
    new_blocks_spec e ino count s b num err s'"
proof (cases "be_quota e = 0")
  case False
  then show ?thesis using inv by (simp add: ext2_new_blocks_def new_blocks_spec_def blocks_512_def)
next
  case True
  define s0 where "s0 = dquot_alloc_block e ino count s"
  note st = new_blocks_start [OF True inv, where ino = ino and count = count, folded s0_def]
  note inv0 = st(2)
  define windowsz where "windowsz = (case ks_icache s0 ino of None \<Rightarrow> 0
     | Some ei \<Rightarrow> if i_block_alloc_info ei = None then 0 else rsv_goal_size (s_rsv_nodes (ks_sbi s0) ino) mod 2 ^ 16)"
  have my: "rsv_owner_ok (ks_sbi s0) (if windowsz > 0 then Some ino else None)"
    using ino by (auto simp: rsv_owner_ok_def windowsz_def split: option.splits if_splits intro: gr0I)
  note eq = ext2_new_blocks_def [of e ino goal count s, unfolded Let_def, folded s0_def, folded windowsz_def]
  note failed = new_blocks_fail [OF True inv, where ino = ino and count = count, folded s0_def]
  show ?thesis
  proof (cases "ext2_has_free_blocks e s0")
    case False
    then show ?thesis using eq True failed [of s0] inv0 st(4) by (simp add: balloc_inv_def)
  next
    case hfb: True
    obtain res t where t: "retry_alloc (s_groups_count (ks_sbi s0) * s_blocks_per_group (ks_sbi s0) + 2) (be_rsv_locked e) (goal_block goal s0)
      ((goal_block goal s0 - unat (es_first_data_block (ks_es s0))) div s_blocks_per_group (ks_sbi s0))
      (if windowsz > 0 then Some ino else None) windowsz
      ((goal_block goal s0 - unat (es_first_data_block (ks_es s0))) div s_blocks_per_group (ks_sbi s0)) count s0 = Some (res, t)"
      "search_ok s0 count res t" "(\<exists>k. res = Exhausted k) \<longrightarrow> free_space s0 = {}"
      using new_blocks_search [OF inv0 my] by blast
    have bpg: "s_blocks_per_group (ks_sbi s0) \<noteq> 0" using inv0 by (simp add: balloc_inv_def)
    show ?thesis
    proof (cases res)
      case Io_error
      then show ?thesis using t(2) by (simp add: search_ok_def)
    next
      case (Exhausted j)
      then have "ext2_new_blocks e ino goal count s = Some (undo_alloc ino count (- ENOSPC) t)"
        using eq True hfb bpg t(1) by simp
      then show ?thesis using failed [of t] t(2,3) Exhausted st(3) by (simp add: search_ok_def)
    next
      case (Allocated g r j)
      obtain b s' where f: "finish_alloc ino count g r j t = ((b, j, 0), s')"
        using finish_alloc_ok(1) [OF inv0 t(2) [unfolded Allocated] surjective_pairing count] by (metis surjective_pairing)
      note fin = finish_alloc_ok [OF inv0 t(2) [unfolded Allocated] f count]
      have "ext2_new_blocks e ino goal count s = Some ((b, j, 0), s')"
        using eq True hfb bpg t(1) Allocated f by simp
      moreover have "blocks_512 s count = blocks_512 s j + blocks_512 s (count - j)"
        using blocks_512_add [OF bits, of j "count - j"] fin(4) by simp
      moreover have "\<exists>ei'. ks_icache s' ino = Some ei' \<and> i_blocks (vfs_inode ei') = i_blocks (vfs_inode ei) + blocks_512 s j"
        if "ks_icache s ino = Some ei" for ei
        using st(6) [OF that] fin(8) calculation(2) st(5) by fastforce
      ultimately show ?thesis
        using fin st desc_frame_trans [OF st(7) fin(9)] data_frame_trans [OF st(8) fin(10) desc_frame_bitmaps [OF st(7)]]
        by (simp add: new_blocks_spec_def)
    qed
  qed
qed

text \<open>A sound file system of one group: blocks 1 to 12 hold metadata, the other 52 are free.\<close>

definition sample_bitmap :: mem where
  "sample_bitmap = (\<lambda>_. 0)(0 := 0xFF, 1 := 0x0F)"

definition sample_alloc_fs :: kstate where
  "sample_alloc_fs = (sample_fs LittleEndian)
     \<lparr>ks_sbi := sample_windows\<lparr>s_freeblocks_counter := 52\<rparr>,
      ks_gdesc := (\<lambda>i. if i = 0 then Some (\<lambda>_. sample_desc\<lparr>bg_free_blocks_count := 52\<rparr>) else None),
      ks_dev := (\<lambda>_. Some (\<lambda>_. 0))(3 \<mapsto> sample_bitmap),
      ks_icache := [12 \<mapsto> sample_ei]\<rparr>"

lemma sample_bitmap_bits: "i < 64 \<Longrightarrow> ext2_test_bit sample_bitmap i \<longleftrightarrow> i < 12"
proof -
  have "list_all (\<lambda>i. ext2_test_bit sample_bitmap i \<longleftrightarrow> i < 12) [0..<64]"
    by (simp add: upt_conv_Cons ext2_test_bit_def sample_bitmap_def)
  then show "i < 64 \<Longrightarrow> ext2_test_bit sample_bitmap i \<longleftrightarrow> i < 12" by (simp add: list_all_iff)
qed

lemma sample_alloc_fs_inv: "balloc_inv sample_alloc_fs"
proof -
  let ?s = sample_alloc_fs
  have c: "s_blocks_per_group (ks_sbi ?s) = 64" "s_groups_count (ks_sbi ?s) = 1" "s_itb_per_group (ks_sbi ?s) = 8"
    "unat (es_blocks_count (ks_es ?s)) = 65" "ext2_group_first_block_no ?s g = g * 64 + 1"
    "lookup_group_desc ?s 0 = Some (sample_desc\<lparr>bg_free_blocks_count := 52\<rparr>)" "ks_dev ?s 3 = Some sample_bitmap"
    "desc_geometry ?s" for g
    by (simp_all add: sample_alloc_fs_def sample_windows_def sample_defs ext2_group_first_block_no_def lookup_group_desc_def
        group_desc_index_def group_desc_offset_def desc_geometry_def)
  have "bm.free_bits sample_bitmap 64 = {12..<64}" using sample_bitmap_bits by (auto simp: bm.free_bits_def not_less)
  moreover have "\<not> reserved_block ?s (sample_desc\<lparr>bg_free_blocks_count := 52\<rparr>) (Suc i)" if "12 \<le> i" for i
    using that by (simp add: reserved_block_def in_range_def c(3) sample_desc_def)
  ultimately have "group_ok ?s 0"
    using c sample_bitmap_bits by (auto simp: group_ok_def sample_desc_def not_less)
  moreover have "rsv_inv (ks_sbi ?s)"
    using sample_windows_inv rsv_inv_cong [of "ks_sbi ?s" sample_windows] by (simp add: sample_alloc_fs_def)
  ultimately show ?thesis using c by (simp add: balloc_inv_def lessThan_Suc)
qed

text \<open>
  C2: on a sound file system \<open>ext2_new_blocks\<close> always returns and leaves a sound file system. On
  success it hands out between one and \<open>count\<close> consecutive blocks, all of them free before; exactly
  these blocks are no longer free, and the counter of free blocks and the block count of the inode
  follow. It fails only when the quota check fails, when the rest is reserved for root, or when no block
  of any group is free, and then neither the free space nor a counter changes. Apart from the free
  counts no descriptor changes, no block but the bitmaps changes, and of the inodes in memory only their
  block counts and dirty states.
\<close>

theorem new_blocks_correct:
  assumes "balloc_inv s" "ino \<noteq> 0" "1 \<le> count" "9 \<le> s_blocksize_bits (ks_sb s)"
  shows "\<exists>b num err s'. ext2_new_blocks e ino goal count s = Some ((b, num, err), s') \<and> balloc_inv s' \<and>
    (if err = 0
      then 1 \<le> num \<and> num \<le> count \<and> {b..<b + num} \<subseteq> free_space s \<and> free_space s' = free_space s - {b..<b + num} \<and>
        s_freeblocks_counter (ks_sbi s') = s_freeblocks_counter (ks_sbi s) - int num
      else b = 0 \<and> num = count \<and> free_space s' = free_space s \<and>
        s_freeblocks_counter (ks_sbi s') = s_freeblocks_counter (ks_sbi s) \<and>
        (err = be_quota e \<or> err = - ENOSPC \<and> (\<not> ext2_has_free_blocks e s \<or> free_space s = {}))) \<and>
    (\<forall>ei. ks_icache s ino = Some ei \<longrightarrow> (\<exists>ei'. ks_icache s' ino = Some ei' \<and>
        i_blocks (vfs_inode ei') = i_blocks (vfs_inode ei) + blocks_512 s (if err = 0 then num else 0))) \<and>
    desc_frame s s' \<and> data_frame s s'"
  using new_blocks_ok [OF assms] unfolding new_blocks_spec_def .

definition sample_creds :: balloc_env where
  "sample_creds = \<lparr>be_cap_resource = True, be_fsuid = 0, be_in_group = (\<lambda>_. False), be_quota = 0, be_rsv_locked = False\<rparr>"

theorem new_blocks_correct_witness:
  "\<exists>b num s'. ext2_new_blocks sample_creds 12 20 4 sample_alloc_fs = Some ((b, num, 0), s') \<and> 1 \<le> num \<and> num \<le> 4 \<and>
     free_space s' = free_space sample_alloc_fs - {b..<b + num} \<and> balloc_inv s'"
proof -
  let ?s = sample_alloc_fs
  have h: "(12::nat) \<noteq> 0" "1 \<le> (4::nat)" "9 \<le> s_blocksize_bits (ks_sb ?s)" by (simp_all add: sample_alloc_fs_def sample_defs)
  have "ext2_group_first_block_no ?s 0 + 20 \<in> free_space ?s"
    using sample_bitmap_bits [of 20] by (subst free_space_iff) (simp_all add: group_bitmap_def sample_alloc_fs_def sample_windows_def
        sample_defs lookup_group_desc_def group_desc_index_def group_desc_offset_def)
  moreover have "ext2_has_free_blocks sample_creds ?s" "be_quota sample_creds = 0" by (simp_all add: ext2_has_free_blocks_def sample_creds_def)
  ultimately show ?thesis
    using new_blocks_correct [OF sample_alloc_fs_inv h, of sample_creds 20] by (fastforce split: if_splits)
qed

end
