(* ===== verification/Free_Blocks.thy ===== *)
theory Free_Blocks
  imports Balloc
begin

text \<open>
  Correctness of \<open>ext2_free_blocks\<close> in terms of the free space, and the interface that the block map
  of a file relies on: a locale of block allocators with its interpretation by
  \<open>ext2_new_blocks\<close> and \<open>ext2_free_blocks\<close>.
\<close>

section \<open>Errors reported on the way\<close>

definition error_frame :: "kstate \<Rightarrow> kstate \<Rightarrow> bool" where
  "error_frame s s' \<longleftrightarrow> alloc_frame s s' \<and> ks_dev s' = ks_dev s \<and>
     s_rsv_window_root (ks_sbi s') = s_rsv_window_root (ks_sbi s) \<and> s_rsv_nodes (ks_sbi s') = s_rsv_nodes (ks_sbi s)"

lemma error_frame_refl [simp]: "error_frame s s"
  by (simp add: error_frame_def)

lemma error_frame_trans [trans]: "error_frame s t \<Longrightarrow> error_frame t u \<Longrightarrow> error_frame s u"
  by (auto simp: error_frame_def intro: alloc_frame_trans)

lemma error_frame_error [simp]: "error_frame s (ext2_error s)"
  by (simp add: error_frame_def)

lemma error_frame_inv:
  assumes "error_frame s s'" "balloc_inv s"
  shows "balloc_inv s'" "free_space s' = free_space s"
proof -
  have fr: "alloc_frame s s'" "ks_dev s' = ks_dev s" using assms(1) by (auto simp: error_frame_def)
  note cong = space_cong [OF alloc_frame_geometry [OF fr(1)] alloc_frame_places(1) [OF fr(1)] fr(2)]
  show "free_space s' = free_space s" by (rule cong)
  have "rsv_inv (ks_sbi s')"
    using assms rsv_inv_cong [of "ks_sbi s'" "ks_sbi s"] by (simp add: error_frame_def balloc_inv_def)
  then show "balloc_inv s'" using cong(2) assms(2) by simp
qed

section \<open>Clearing bits\<close>

lemma clear_run_ok:
  "\<exists>m' s'. clear_run n b m f s = ((m', f + card {i. b \<le> i \<and> i < b + n \<and> ext2_test_bit m i}), s') \<and> error_frame s s' \<and>
     (\<forall>i. ext2_test_bit m' i \<longleftrightarrow> ext2_test_bit m i \<and> \<not> (b \<le> i \<and> i < b + n))"
proof (induction n arbitrary: b m f s)
  case (Suc n)
  let ?S = "\<lambda>b m n. {i. b \<le> i \<and> i < b + n \<and> ext2_test_bit m i}"
  show ?case
  proof (cases "ext2_test_bit m b")
    case True
    let ?m = "ext2_clear_bit m b"
    obtain m' s' where r: "clear_run n (b + 1) ?m (f + 1) s = ((m', f + 1 + card (?S (b + 1) ?m n)), s')" "error_frame s s'"
      "\<forall>i. ext2_test_bit m' i \<longleftrightarrow> ext2_test_bit ?m i \<and> \<not> (b + 1 \<le> i \<and> i < b + 1 + n)" using Suc.IH [of "b + 1" ?m "f + 1" s] by blast
    have "?S b m (Suc n) = insert b (?S (b + 1) ?m n)" using True by (auto simp: bm.tst_cl)
    moreover have "finite (?S (b + 1) ?m n)" by (rule finite_subset [of _ "{..<b + 1 + n}"]) auto
    ultimately have "card (?S b m (Suc n)) = Suc (card (?S (b + 1) ?m n))" by simp
    moreover have "ext2_test_bit m' i \<longleftrightarrow> ext2_test_bit m i \<and> \<not> (b \<le> i \<and> i < b + Suc n)" for i
      using r(3) [rule_format, of i] by (cases "i = b") (simp_all add: bm.tst_cl, linarith?)
    ultimately show ?thesis using r True by simp
  next
    case False
    obtain m' s' where r: "clear_run n (b + 1) m f (ext2_error s) = ((m', f + card (?S (b + 1) m n)), s')" "error_frame (ext2_error s) s'"
      "\<forall>i. ext2_test_bit m' i \<longleftrightarrow> ext2_test_bit m i \<and> \<not> (b + 1 \<le> i \<and> i < b + 1 + n)" using Suc.IH [of "b + 1" m f "ext2_error s"] by blast
    have "?S b m (Suc n) = ?S (b + 1) m n" using False by (auto simp: le_eq_less_or_eq)
    moreover have "ext2_test_bit m' i \<longleftrightarrow> ext2_test_bit m i \<and> \<not> (b \<le> i \<and> i < b + Suc n)" for i
      using r(3) [rule_format, of i] False by (cases "i = b") (simp_all, linarith?)
    ultimately show ?thesis using r(1) False error_frame_trans [OF error_frame_error r(2)] by simp
  qed
qed simp

section \<open>One group\<close>

text \<open>The blocks of a run that may be freed: inside the file system and no metadata of their group.\<close>

definition freeable :: "kstate \<Rightarrow> nat set \<Rightarrow> bool" where
  "freeable s X \<longleftrightarrow> (\<forall>x\<in>X. unat (es_first_data_block (ks_es s)) \<le> x \<and> x < unat (es_blocks_count (ks_es s)) \<and>
     (\<forall>g d i. x = ext2_group_first_block_no s g + i \<longrightarrow> i < s_blocks_per_group (ks_sbi s) \<longrightarrow>
        lookup_group_desc s g = Some d \<longrightarrow> \<not> reserved_block s d x))"

lemma freeable_subset: "freeable s X \<Longrightarrow> Y \<subseteq> X \<Longrightarrow> freeable s Y"
  unfolding freeable_def by blast

lemma freeable_not_zone:
  assumes "freeable s {x..<x + n}" "x = ext2_group_first_block_no s g + b" "b + n \<le> s_blocks_per_group (ks_sbi s)" "1 \<le> n"
    "lookup_group_desc s g = Some d"
  shows "\<not> system_zone d (s_itb_per_group (ks_sbi s)) x n"
proof -
  have run: "\<not> reserved_block s d y \<and> y < unat (es_blocks_count (ks_es s))" if "x \<le> y" "y < x + n" for y
  proof -
    have "y = ext2_group_first_block_no s g + (y - ext2_group_first_block_no s g)" "y - ext2_group_first_block_no s g < s_blocks_per_group (ks_sbi s)"
      using that assms(2,3) by auto
    then show ?thesis using assms(1,5) that unfolding freeable_def by (metis atLeastLessThan_iff)
  qed
  have "x + n - 1 < unat (es_blocks_count (ks_es s))" using run [of "x + n - 1"] assms(4) by simp
  then have lt: "x + n \<le> 2 ^ 32" using unsigned_less [of "es_blocks_count (ks_es s)", where ?'a = nat] by simp
  have "y < x + n" if "in_range y x n" for y
  proof -
    have "(int x + int n - 1) mod 2 ^ 32 = int x + int n - 1" using lt assms(4) by (intro mod_pos_pos_trivial) auto
    then show ?thesis using that by (simp add: in_range_def)
  qed
  then show ?thesis using run assms(4) by (auto simp: system_zone_def reserved_block_def in_range_def [of _ x n])
qed

text \<open>What freeing leaves alone.\<close>

definition free_frame :: "kstate \<Rightarrow> kstate \<Rightarrow> bool" where
  "free_frame s s' \<longleftrightarrow> desc_frame s s' \<and> ks_icache s' = ks_icache s \<and>
     s_freeblocks_counter (ks_sbi s') = s_freeblocks_counter (ks_sbi s) \<and> data_frame s s'"

lemma free_frame_refl [simp]: "free_frame s s"
  by (simp add: free_frame_def)

lemma free_frame_trans: "free_frame s t \<Longrightarrow> free_frame t u \<Longrightarrow> free_frame s u"
  using desc_frame_trans [of s t u] data_frame_trans [of s t u] desc_frame_bitmaps [of s t] by (simp add: free_frame_def)

lemma reserved_block_frame:
  assumes "s_itb_per_group (ks_sbi s') = s_itb_per_group (ks_sbi s)"
    "d'\<lparr>bg_free_blocks_count := 0\<rparr> = d\<lparr>bg_free_blocks_count := 0\<rparr>"
  shows "reserved_block s' d' x = reserved_block s d x"
proof -
  have "bg_block_bitmap d' = bg_block_bitmap d" "bg_inode_bitmap d' = bg_inode_bitmap d" "bg_inode_table d' = bg_inode_table d"
    using arg_cong [OF assms(2), of bg_block_bitmap] arg_cong [OF assms(2), of bg_inode_bitmap] arg_cong [OF assms(2), of bg_inode_table]
    by simp_all
  then show ?thesis by (simp add: reserved_block_def assms(1))
qed

lemma freeable_frame:
  assumes "desc_frame s s'" "freeable s X"
  shows "freeable s' X"
proof -
  have geo: "same_geometry s s'" using assms(1) by (simp add: desc_frame_def)
  have "\<not> reserved_block s' d' x"
    if x: "x \<in> X" "x = ext2_group_first_block_no s g + i" "i < s_blocks_per_group (ks_sbi s)" and d': "lookup_group_desc s' g = Some d'" for x g i d'
  proof -
    have "map_option (bg_free_blocks_count_update (\<lambda>_. 0)) (lookup_group_desc s g) = Some (d'\<lparr>bg_free_blocks_count := 0\<rparr>)"
      using assms(1) d' unfolding desc_frame_def by (metis option.simps(9))
    then obtain d where d: "lookup_group_desc s g = Some d" "d'\<lparr>bg_free_blocks_count := 0\<rparr> = d\<lparr>bg_free_blocks_count := 0\<rparr>" by auto
    then have "\<not> reserved_block s d x" using assms(2) x unfolding freeable_def by blast
    then show ?thesis using reserved_block_frame [OF _ d(2)] geo by (simp add: same_geometry_def)
  qed
  then show ?thesis
    using assms(2) geo same_geometry_first [OF geo] unfolding freeable_def same_geometry_def by (simp, blast)
qed

text \<open>The counting behind one group: the bits that were set in the run are the blocks it adds.\<close>

lemma clear_free_count:
  assumes "b + n \<le> bpg" "\<And>i. ext2_test_bit m' i \<longleftrightarrow> ext2_test_bit m i \<and> \<not> (b \<le> i \<and> i < b + n)"
  shows "card (bm.free_bits m' bpg) = card (bm.free_bits m bpg) + card {i. b \<le> i \<and> i < b + n \<and> ext2_test_bit m i}"
proof -
  let ?S = "{i. b \<le> i \<and> i < b + n \<and> ext2_test_bit m i}"
  have "i \<in> bm.free_bits m' bpg \<longleftrightarrow> i \<in> bm.free_bits m bpg \<union> ?S" for i
    using assms(1) assms(2) [of i] by (auto simp: bm.free_bits_def)
  then have "bm.free_bits m' bpg = bm.free_bits m bpg \<union> ?S" by blast
  moreover have "bm.free_bits m bpg \<inter> ?S = {}" by (auto simp: bm.free_bits_def)
  moreover have "finite ?S" by (rule finite_subset [of _ "{..<b + n}"]) auto
  ultimately show ?thesis by (simp add: card_Un_disjoint)
qed

lemma run_not_free_card:
  assumes "g < s_groups_count (ks_sbi s)" "group_bitmap s g = Some m" "b + n \<le> s_blocks_per_group (ks_sbi s)"
  defines "x \<equiv> ext2_group_first_block_no s g + b"
  shows "card ({x..<x + n} - free_space s) = card {i. b \<le> i \<and> i < b + n \<and> ext2_test_bit m i}"
proof -
  let ?f = "\<lambda>i. ext2_group_first_block_no s g + i"
  have "{x..<x + n} - free_space s = ?f ` {i. b \<le> i \<and> i < b + n \<and> ext2_test_bit m i}"
  proof (intro set_eqI iffI)
    fix y assume y: "y \<in> {x..<x + n} - free_space s"
    define i where "i = y - ext2_group_first_block_no s g"
    have i: "y = ?f i" "b \<le> i" "i < b + n" using y by (auto simp: i_def x_def)
    then have "ext2_test_bit m i" using y free_space_iff [of i s g] assms(1-3) by auto
    then show "y \<in> ?f ` {i. b \<le> i \<and> i < b + n \<and> ext2_test_bit m i}" using i by blast
  next
    fix y assume "y \<in> ?f ` {i. b \<le> i \<and> i < b + n \<and> ext2_test_bit m i}"
    then obtain i where "y = ?f i" "b \<le> i" "i < b + n" "ext2_test_bit m i" by blast
    then show "y \<in> {x..<x + n} - free_space s" using free_space_iff [of i s g] assms(2,3) by (auto simp: x_def)
  qed
  then show ?thesis by (simp add: card_image)
qed

lemma freed_group_change:
  fixes s g b n m m'
  defines "x \<equiv> ext2_group_first_block_no s g + b" and "bpg \<equiv> s_blocks_per_group (ks_sbi s)"
  assumes inv: "balloc_inv s" and g: "g < s_groups_count (ks_sbi s)" and bn: "b + n \<le> bpg"
    and free: "freeable s {x..<x + n}" and d: "lookup_group_desc s g = Some d" "ks_dev s (bg_block_bitmap d) = Some m"
    and m': "\<And>i. ext2_test_bit m' i \<longleftrightarrow> ext2_test_bit m i \<and> \<not> (b \<le> i \<and> i < b + n)"
    and s3: "error_frame s s3"
  defines "s4 \<equiv> group_adjust_blocks g (int (card ({x..<x + n} - free_space s))) (put_block (bg_block_bitmap d) m' s3)"
  shows "balloc_inv s4" "free_space s4 = free_space s \<union> {x..<x + n}" "free_frame s s4"
proof -
  let ?k = "card ({x..<x + n} - free_space s)"
  have fr: "alloc_frame s s3" "ks_dev s3 = ks_dev s" using s3 by (simp_all add: error_frame_def)
  have gm: "group_bitmap s g = Some m" using d by (simp add: group_bitmap_def)
  have ok: "group_ok s g" and dg: "desc_geometry s" and b16: "bpg < 2 ^ 16" using inv g by (auto simp: balloc_inv_def bpg_def)
  have k: "?k = card {i. b \<le> i \<and> i < b + n \<and> ext2_test_bit m i}"
    unfolding x_def by (rule run_not_free_card [OF g gm]) (use bn in \<open>simp add: bpg_def\<close>)
  have "card (bm.free_bits m' bpg) \<le> bpg" using card_mono [of "{..<bpg}" "bm.free_bits m' bpg"] by (auto simp: bm.free_bits_def)
  then have c: "unat (bg_free_blocks_count d + of_int (int ?k)) = card (bm.free_bits m' bpg)"
    using clear_free_count [OF bn m'] k ok d b16 by (intro free_count_adjust) (auto simp: group_ok_def bpg_def)
  let ?t = "put_block (bg_block_bitmap d) m' s3"
  have "bg_block_bitmap d \<in> bitmap_blocks s3" using d(1) alloc_frame_bitmaps [OF fr(1)] by (auto simp: bitmap_blocks_def)
  then have t: "alloc_frame s ?t" by (rule alloc_frame_trans [OF fr(1) alloc_frame_put_block])
  have lk: "lookup_group_desc s4 h = (if h = g then Some (d\<lparr>bg_free_blocks_count := bg_free_blocks_count d + of_int (int ?k)\<rparr>)
      else lookup_group_desc s h)" for h
    unfolding s4_def using group_adjust_blocks_lookup [of ?t g d "int ?k" h] alloc_frame_places [OF t] d(1) dg by simp
  have geo: "same_geometry s s4" using alloc_frame_geometry [OF t] by (simp add: s4_def same_geometry_def)
  have dev: "ks_dev s4 = (ks_dev s)(bg_block_bitmap d \<mapsto> m')" by (simp add: s4_def put_block_def fr(2))
  have rsv: "rsv_inv (ks_sbi s4)"
    using inv s3 rsv_inv_cong [of "ks_sbi s4" "ks_sbi s"] by (simp add: s4_def put_block_def balloc_inv_def error_frame_def)
  have fr': "ext2_group_first_block_no s g + i < unat (es_blocks_count (ks_es s)) \<and> \<not> reserved_block s d (ext2_group_first_block_no s g + i)"
    if i: "i < bpg" "\<not> ext2_test_bit m' i" for i
  proof (cases "ext2_test_bit m i")
    case True
    then have "ext2_group_first_block_no s g + i \<in> {x..<x + n}" using i m' by (auto simp: x_def)
    then show ?thesis using free d(1) i unfolding freeable_def bpg_def by blast
  next
    case False
    then show ?thesis using ok d i by (auto simp: group_ok_def bpg_def)
  qed
  note ch = group_change [OF inv geo rsv g d dev lk c [unfolded bpg_def] fr' [unfolded bpg_def]]
  show "balloc_inv s4" by (rule ch(1))
  show "free_frame s s4"
    using geo lk d(1) t alloc_frame_sbi(6) [OF t] data_frame_trans [of s ?t s4] alloc_frame_bitmaps [OF t]
    by (simp add: free_frame_def desc_frame_def s4_def) (simp add: alloc_frame_def)
  show "free_space s4 = free_space s \<union> {x..<x + n}"
  proof (rule free_space_eqI [OF _ geo])
    show "0 < s_blocks_per_group (ks_sbi s)" using inv by (simp add: balloc_inv_def)
    fix h i assume i: "i < s_blocks_per_group (ks_sbi s)" and h: "h < s_groups_count (ks_sbi s)"
    have run: "ext2_group_first_block_no s h + i \<in> {x..<x + n} \<longleftrightarrow> h = g \<and> b \<le> i \<and> i < b + n"
    proof -
      have "int i < int b + int n \<longleftrightarrow> i < b + n" "int b + int n \<le> int bpg" using bn by linarith+
      then show ?thesis
        using run_coordinates [where r = "int b" and k = n and s = s and i = i and g = g and h = h] i
        by (simp add: x_def bpg_def add.commute)
    qed
    show "(\<exists>k. group_bitmap s4 h = Some k \<and> \<not> ext2_test_bit k i) \<longleftrightarrow> ext2_group_first_block_no s h + i \<in> free_space s \<union> {x..<x + n}"
      unfolding Un_iff run using ch(2) [of h] gm m' [of i] free_space_iff [OF i, of h] h by (cases "h = g") auto
  next
    fix y assume "y \<in> free_space s \<union> {x..<x + n}"
    then show "\<exists>g i. y = ext2_group_first_block_no s g + i \<and> i < s_blocks_per_group (ks_sbi s) \<and> g < s_groups_count (ks_sbi s)"
    proof
      assume "y \<in> {x..<x + n}"
      then show ?thesis using g bn by (intro exI [of _ g] exI [of _ "y - ext2_group_first_block_no s g"]) (auto simp: x_def bpg_def)
    qed (rule free_space_grid)
  qed
qed

section \<open>All groups of a run\<close>

lemma group_of_block:
  assumes "balloc_inv s" "unat (es_first_data_block (ks_es s)) \<le> x" "x < unat (es_blocks_count (ks_es s))"
  defines "g \<equiv> (x - unat (es_first_data_block (ks_es s))) div s_blocks_per_group (ks_sbi s)"
    and "b \<equiv> (x - unat (es_first_data_block (ks_es s))) mod s_blocks_per_group (ks_sbi s)"
  shows "g < s_groups_count (ks_sbi s)" "x = ext2_group_first_block_no s g + b" "b < s_blocks_per_group (ks_sbi s)"
proof -
  have bpg: "0 < s_blocks_per_group (ks_sbi s)" using assms(1) by (simp add: balloc_inv_def)
  have "x - unat (es_first_data_block (ks_es s)) < s_groups_count (ks_sbi s) * s_blocks_per_group (ks_sbi s)"
    using assms(1-3) by (simp add: balloc_inv_def ext2_group_first_block_no_def) linarith
  then show "g < s_groups_count (ks_sbi s)" by (simp add: g_def less_mult_imp_div_less)
  show "x = ext2_group_first_block_no s g + b" using assms(2) by (simp add: g_def b_def ext2_group_first_block_no_def)
  show "b < s_blocks_per_group (ks_sbi s)" using bpg by (simp add: b_def)
qed

text \<open>One round of the loop.\<close>

lemma free_round:
  assumes inv: "balloc_inv s" and g: "g < s_groups_count (ks_sbi s)" and n: "b + n \<le> s_blocks_per_group (ks_sbi s)" "1 \<le> n"
    and free: "freeable s {x..<x + n}" and x: "x = ext2_group_first_block_no s g + b"
  shows "\<exists>bb m s1 d m' s3 s4. read_block_bitmap g s = (Some (bb, m), s1) \<and> ext2_get_group_desc g s1 = (Some d, s1) \<and>
    \<not> system_zone d (s_itb_per_group (ks_sbi s1)) x n \<and>
    clear_run n b m 0 s1 = ((m', card ({x..<x + n} - free_space s)), s3) \<and>
    s4 = group_adjust_blocks g (int (card ({x..<x + n} - free_space s))) (put_block bb m' s3) \<and>
    balloc_inv s4 \<and> free_space s4 = free_space s \<union> {x..<x + n} \<and> free_frame s s4"
proof -
  have "group_ok s g" using inv g by (simp add: balloc_inv_def)
  then obtain d m where d: "lookup_group_desc s g = Some d" "ks_dev s (bg_block_bitmap d) = Some m" by (auto simp: group_ok_def)
  obtain s1 where s1: "read_block_bitmap g s = (Some (bg_block_bitmap d, m), s1)" "error_frame s s1"
    using read_block_bitmap_ok [OF d] unfolding error_frame_def by blast
  have fr1: "alloc_frame s s1" using s1(2) by (simp add: error_frame_def)
  have d1: "ext2_get_group_desc g s1 = (Some d, s1)"
    using alloc_frame_places(1) [OF fr1] d(1) by (intro ext2_get_group_desc_Some) simp
  have z: "\<not> system_zone d (s_itb_per_group (ks_sbi s1)) x n"
    using freeable_not_zone [OF free x n d(1)] alloc_frame_sbi(3) [OF fr1] by simp
  have gm: "group_bitmap s g = Some m" using d by (simp add: group_bitmap_def)
  obtain m' s3 where c: "clear_run n b m 0 s1 = ((m', card ({x..<x + n} - free_space s)), s3)" "error_frame s1 s3"
    "\<And>i. ext2_test_bit m' i \<longleftrightarrow> ext2_test_bit m i \<and> \<not> (b \<le> i \<and> i < b + n)"
    using clear_run_ok [of n b m 0 s1] unfolding x run_not_free_card [OF g gm n(1)] by auto
  note ch = freed_group_change [OF inv g n(1) free [unfolded x] d c(3) error_frame_trans [OF s1(2) c(2)], folded x]
  show ?thesis using s1(1) d1 z c(1) ch by blast
qed

lemma free_more_ok:
  assumes "balloc_inv s" "bpg = s_blocks_per_group (ks_sbi s)" "first = unat (es_first_data_block (ks_es s))"
    and "freeable s {block..<block + count}" "1 \<le> count"
  shows "\<exists>s'. free_more bpg first block count freed s = Some (freed + card ({block..<block + count} - free_space s), s') \<and>
    balloc_inv s' \<and> free_space s' = free_space s \<union> {block..<block + count} \<and> free_frame s s'"
  using assms
proof (induction bpg first block count freed s rule: free_more.induct)
  case (1 bpg first block count freed s)
  note inv = "1.prems"(1) and free = "1.prems"(4) and geo = "1.prems"(2,3)
  define g where "g = (block - first) div bpg"
  define b where "b = (block - first) mod bpg"
  define over where "over = (if b + count > bpg then b + count - bpg else 0)"
  define n where "n = count - over"
  have dz: "first \<le> block" "block < unat (es_blocks_count (ks_es s))" using free "1.prems"(5) geo by (auto simp: freeable_def)
  have gb: "g < s_groups_count (ks_sbi s)" "block = ext2_group_first_block_no s g + b" "b < bpg"
    using group_of_block [OF inv, of block] dz geo by (auto simp: g_def b_def)
  have bpg: "bpg \<noteq> 0" using gb(3) by simp
  have n: "b + n \<le> bpg" "1 \<le> n" "n + over = count" using gb(3) "1.prems"(5) by (auto simp: n_def over_def)
  have sub: "freeable s {block..<block + n}" "freeable s {block + n..<block + count}"
    using n(3) by (auto intro!: freeable_subset [OF free])
  obtain bb m s1 d m' s3 s4 where r: "read_block_bitmap g s = (Some (bb, m), s1)" "ext2_get_group_desc g s1 = (Some d, s1)"
    "\<not> system_zone d (s_itb_per_group (ks_sbi s1)) block n"
    "clear_run n b m 0 s1 = ((m', card ({block..<block + n} - free_space s)), s3)"
    "s4 = group_adjust_blocks g (int (card ({block..<block + n} - free_space s))) (put_block bb m' s3)"
    "balloc_inv s4" "free_space s4 = free_space s \<union> {block..<block + n}" "free_frame s s4"
    using free_round [OF inv gb(1) n(1) [unfolded geo(1)] n(2) sub(1) gb(2)] by blast
  note eq = free_more.simps [of bpg first block count freed s, unfolded Let_def, folded g_def b_def, folded over_def, folded n_def]
  have eq': "free_more bpg first block count freed s =
      (if over \<noteq> 0 then free_more bpg first (block + n) over (freed + card ({block..<block + n} - free_space s)) s4
       else Some (freed + card ({block..<block + n} - free_space s), s4))"
    using eq bpg r by simp
  show ?case
  proof (cases "over = 0")
    case True
    then show ?thesis using eq' r n(3) by simp
  next
    case False
    have geo4: "bpg = s_blocks_per_group (ks_sbi s4)" "first = unat (es_first_data_block (ks_es s4))"
      using r(8) geo by (auto simp: free_frame_def desc_frame_def same_geometry_def)
    have fo: "freeable s4 {block + n..<block + n + over}" "1 \<le> over"
      using freeable_frame [OF _ sub(2), of s4] r(8) n(3) False by (simp_all add: add.assoc free_frame_def)
    note IH = "1.IH" [OF bpg g_def b_def over_def n_def r(1) [symmetric] refl refl r(2) [symmetric] refl r(3)
        r(4) [symmetric] refl r(5) False r(6) geo4]
    obtain s' where s': "free_more bpg first (block + n) over (freed + card ({block..<block + n} - free_space s)) s4 =
        Some (freed + card ({block..<block + n} - free_space s) + card ({block + n..<block + n + over} - free_space s4), s')"
      "balloc_inv s'" "free_space s' = free_space s4 \<union> {block + n..<block + n + over}" "free_frame s4 s'"
      using IH [OF fo] by blast
    have all: "{block..<block + count} = {block..<block + n} \<union> {block + n..<block + n + over}"
      unfolding n(3) [symmetric] using ivl_disj_un_two(3) [of block "block + n" "block + n + over"] by (simp add: add.assoc)
    have "{block..<block + n} \<inter> {block + n..<block + n + over} = {}" by simp
    then have "{block..<block + count} - free_space s =
        ({block..<block + n} - free_space s) \<union> ({block + n..<block + n + over} - free_space s4)"
      unfolding all r(7) by blast
    moreover have "({block..<block + n} - free_space s) \<inter> ({block + n..<block + n + over} - free_space s4) = {}"
      unfolding r(7) by blast
    ultimately have "card ({block..<block + count} - free_space s) =
        card ({block..<block + n} - free_space s) + card ({block + n..<block + n + over} - free_space s4)"
      by (simp add: card_Un_disjoint)
    moreover have "free_space s' = free_space s \<union> {block..<block + count}" unfolding s'(3) r(7) all by (rule Un_assoc)
    ultimately show ?thesis using eq' False s'(1,2) free_frame_trans [OF r(8) s'(4)] by simp
  qed
qed

lemma release_blocks_keeps [simp]:
  "ks_gdesc (release_blocks c s) = ks_gdesc s" "ks_dev (release_blocks c s) = ks_dev s" "ks_es (release_blocks c s) = ks_es s"
  "ks_icache (release_blocks c s) = ks_icache s"
  "ks_sbi (release_blocks c s) = (ks_sbi s)\<lparr>s_freeblocks_counter := s_freeblocks_counter (ks_sbi s) + c\<rparr>"
  "s_blocksize_bits (ks_sb (release_blocks c s)) = s_blocksize_bits (ks_sb s)"
  by (simp_all add: release_blocks_def)

lemma data_frame_release [simp]: "data_frame s (release_blocks c s)"
  by (simp add: release_blocks_def data_frame_def sbi_core_def)

lemma bitmap_blocks_release [simp]: "bitmap_blocks (release_blocks c s) = bitmap_blocks s"
  by (simp add: bitmap_blocks_def lookup_desc_geometry_cong [of "release_blocks c s" s])

definition free_spec :: "nat \<Rightarrow> nat \<Rightarrow> nat \<Rightarrow> kstate \<Rightarrow> kstate \<Rightarrow> bool" where
  "free_spec ino block count s s' \<longleftrightarrow>
     (let freed = card ({block..<block + count} - free_space s) in
      free_space s' = free_space s \<union> {block..<block + count} \<and>
      s_freeblocks_counter (ks_sbi s') = s_freeblocks_counter (ks_sbi s) + int freed \<and>
      (\<forall>ei. ks_icache s ino = Some ei \<longrightarrow> (\<exists>ei'. ks_icache s' ino = Some ei' \<and>
         i_blocks (vfs_inode ei') = i_blocks (vfs_inode ei) - blocks_512 s freed)) \<and>
      desc_frame s s' \<and> data_frame s s')"

lemma free_blocks_ok:
  assumes inv: "balloc_inv s" and free: "freeable s {block..<block + count}" and n: "1 \<le> count"
  shows "\<exists>s'. ext2_free_blocks ino block count s = Some s' \<and> balloc_inv s' \<and> free_spec ino block count s s'"
proof -
  let ?n = "card ({block..<block + count} - free_space s)"
  obtain t where t: "free_more (s_blocks_per_group (ks_sbi s)) (unat (es_first_data_block (ks_es s))) block count 0 s = Some (?n, t)"
    "balloc_inv t" "free_space t = free_space s \<union> {block..<block + count}" "free_frame s t"
    using free_more_ok [OF inv refl refl free n, of 0] by auto
  have lim: "unat (es_first_data_block (ks_es s)) \<le> block" "block + count - 1 < unat (es_blocks_count (ks_es s))"
    using free n unfolding freeable_def by (auto dest: bspec [of _ _ "block + count - 1"])
  then have m: "(block + count) mod 2 ^ 32 = block + count \<or> block + count = 2 ^ 32"
    using unsigned_less [of "es_blocks_count (ks_es s)", where ?'a = nat] by auto
  have "block + count \<le> unat (es_blocks_count (ks_es s))" "unat (es_blocks_count (ks_es s)) < 2 ^ 32"
    using lim(2) n unsigned_less [of "es_blocks_count (ks_es s)", where ?'a = nat] by auto
  then have eq: "ext2_free_blocks ino block count s = Some (dquot_free_block_nodirty ino ?n (release_blocks (int ?n) t))"
    using t(1) lim(1) by (simp add: ext2_free_blocks_def Let_def)
  let ?s' = "dquot_free_block_nodirty ino ?n (release_blocks (int ?n) t)"
  have k: "ks_sbi ?s' = (ks_sbi t)\<lparr>s_freeblocks_counter := s_freeblocks_counter (ks_sbi t) + int ?n\<rparr>" "ks_es ?s' = ks_es t"
    "ks_gdesc ?s' = ks_gdesc t" "ks_dev ?s' = ks_dev t" "s_blocksize_bits (ks_sb ?s') = s_blocksize_bits (ks_sb t)"
    by (simp_all add: dquot_free_block_nodirty_def)
  have lk: "lookup_group_desc ?s' g = lookup_group_desc t g" for g by (rule lookup_desc_geometry_cong) (simp_all add: k)
  have geo: "same_geometry t ?s'" by (simp add: same_geometry_def k desc_geometry_def)
  have "rsv_inv (ks_sbi ?s')" using t(2) rsv_inv_cong [of "ks_sbi ?s'" "ks_sbi t"] by (simp add: k balloc_inv_def)
  then have "balloc_inv ?s'" "free_space ?s' = free_space t" using space_cong [OF geo lk k(4)] t(2) by simp_all
  moreover have "desc_frame s ?s'"
    by (rule desc_frame_trans [of s t]) (use t(4) geo lk in \<open>simp_all add: free_frame_def desc_frame_def\<close>)
  moreover have "\<exists>ei'. ks_icache ?s' ino = Some ei' \<and> i_blocks (vfs_inode ei') = i_blocks (vfs_inode ei) - blocks_512 s ?n"
    if "ks_icache s ino = Some ei" for ei
    using that t(4) blocks_512_cong [of "release_blocks (int ?n) t" s]
    by (simp add: dquot_free_block_nodirty_def free_frame_def upd_vfs_def data_frame_bits)
  moreover have "data_frame s ?s'"
  proof (rule data_frame_trans [of s t])
    show "data_frame t ?s'" by (rule data_frame_trans [of t "release_blocks (int ?n) t"])
      simp_all
    show "data_frame s t" "bitmap_blocks t = bitmap_blocks s" using t(4) desc_frame_bitmaps [of s t] by (simp_all add: free_frame_def)
  qed
  ultimately show ?thesis
    using eq t(3,4) by (simp add: free_spec_def Let_def k free_frame_def)
qed

lemma free_run_freeable:
  assumes "balloc_inv s" "X \<subseteq> free_space s"
  shows "freeable s X"
  unfolding freeable_def
proof (intro ballI conjI allI impI)
  fix x assume "x \<in> X"
  then have x: "x \<in> free_space s" using assms(2) by blast
  then obtain h j m where h: "x = ext2_group_first_block_no s h + j" "h < s_groups_count (ks_sbi s)" "j < s_blocks_per_group (ks_sbi s)"
    "group_bitmap s h = Some m" "\<not> ext2_test_bit m j" unfolding free_space_def by blast
  have ok: "group_ok s h" using assms(1) h(2) by (simp add: balloc_inv_def)
  show "unat (es_first_data_block (ks_es s)) \<le> x" using h(1) by (simp add: ext2_group_first_block_no_def)
  show "x < unat (es_blocks_count (ks_es s))" using ok h by (auto simp: group_ok_def group_bitmap_def)
  fix g d i assume g: "x = ext2_group_first_block_no s g + i" "i < s_blocks_per_group (ks_sbi s)" "lookup_group_desc s g = Some d"
  have "g < s_groups_count (ks_sbi s) \<and> (\<exists>m. group_bitmap s g = Some m \<and> \<not> ext2_test_bit m i)"
    using free_space_iff [OF g(2), of g] x g(1) by simp
  moreover from this have "group_ok s g" using assms(1) by (simp add: balloc_inv_def)
  ultimately show "\<not> reserved_block s d x" using g by (auto simp: group_ok_def group_bitmap_def)
qed

section \<open>The interface for the block map\<close>

text \<open>
  What a client of the allocator relies on: allocating takes a run out of the free space, and the run
  may be given back; freeing a run that may be freed puts it into the free space.
\<close>

locale block_allocator =
  fixes alloc :: "'e \<Rightarrow> nat \<Rightarrow> nat \<Rightarrow> nat \<Rightarrow> 's \<Rightarrow> ((nat \<times> nat \<times> int) \<times> 's) option"
    and dealloc :: "nat \<Rightarrow> nat \<Rightarrow> nat \<Rightarrow> 's \<Rightarrow> 's option"
    and inv :: "'s \<Rightarrow> bool" and space :: "'s \<Rightarrow> nat set" and may_free :: "'s \<Rightarrow> nat set \<Rightarrow> bool"
    and frame :: "'s \<Rightarrow> 's \<Rightarrow> bool" and errors :: "'e \<Rightarrow> int set"
  assumes alloc_law: "inv s \<Longrightarrow> ino \<noteq> 0 \<Longrightarrow> 1 \<le> count \<Longrightarrow> \<exists>b num err s'. alloc e ino goal count s = Some ((b, num, err), s') \<and>
      inv s' \<and> frame s s' \<and>
      (if err = 0 then 1 \<le> num \<and> num \<le> count \<and> {b..<b + num} \<subseteq> space s \<and> space s' = space s - {b..<b + num}
       else space s' = space s \<and> err \<in> errors e)"
    and dealloc_law: "inv s \<Longrightarrow> may_free s {b..<b + num} \<Longrightarrow> 1 \<le> num \<Longrightarrow>
      \<exists>s'. dealloc ino b num s = Some s' \<and> inv s' \<and> frame s s' \<and> space s' = space s \<union> {b..<b + num}"
    and free_may_free: "inv s \<Longrightarrow> X \<subseteq> space s \<Longrightarrow> may_free s X"
    and may_free_frame: "frame s s' \<Longrightarrow> may_free s X \<Longrightarrow> may_free s' X"
    and may_free_subset: "may_free s X \<Longrightarrow> Y \<subseteq> X \<Longrightarrow> may_free s Y"
    and frame_refl: "frame s s"
    and frame_trans: "frame s t \<Longrightarrow> frame t u \<Longrightarrow> frame s u"
begin

text \<open>Giving back what was just allocated restores the free space.\<close>

lemma alloc_dealloc:
  assumes "inv s" "ino \<noteq> 0" "1 \<le> count" "alloc e ino goal count s = Some ((b, num, 0), s')"
  shows "\<exists>s''. dealloc ino' b num s' = Some s'' \<and> inv s'' \<and> frame s s'' \<and> space s'' = space s"
proof -
  have a: "inv s'" "1 \<le> num" "{b..<b + num} \<subseteq> space s" "space s' = space s - {b..<b + num}" "frame s s'"
    using alloc_law [OF assms(1-3), of e goal] assms(4) by auto
  have "may_free s' {b..<b + num}" using may_free_frame [OF a(5) free_may_free [OF assms(1) a(3)]] .
  then obtain s'' where "dealloc ino' b num s' = Some s''" "inv s''" "frame s' s''" "space s'' = space s' \<union> {b..<b + num}"
    using dealloc_law [OF a(1) _ a(2)] by blast
  then show ?thesis using a(3,4) frame_trans [OF a(5)] by auto
qed

text \<open>Two allocations in a row never overlap.\<close>

lemma alloc_disjoint:
  assumes "inv s" "ino \<noteq> 0" "1 \<le> count" "alloc e ino goal count s = Some ((b, num, 0), s')"
    and "ino' \<noteq> 0" "1 \<le> count'" "alloc e' ino' goal' count' s' = Some ((b', num', 0), s'')"
  shows "{b..<b + num} \<inter> {b'..<b' + num'} = {}"
proof -
  have "inv s'" "space s' = space s - {b..<b + num}" using alloc_law [OF assms(1-3), of e goal] assms(4) by auto
  moreover from this have "{b'..<b' + num'} \<subseteq> space s'" using alloc_law [OF _ assms(5,6), of s' e' goal'] assms(7) by auto
  ultimately show ?thesis by blast
qed

text \<open>Freeing a list of single blocks, as the error paths of the block map do.\<close>

primrec dealloc_all :: "nat \<Rightarrow> nat list \<Rightarrow> 's \<Rightarrow> 's option" where
  "dealloc_all ino [] s = Some s"
| "dealloc_all ino (b # bs) s = (case dealloc ino b 1 s of None \<Rightarrow> None | Some s' \<Rightarrow> dealloc_all ino bs s')"

lemma dealloc_all_ok:
  assumes "inv s" "may_free s (set bs)"
  shows "\<exists>s'. dealloc_all ino bs s = Some s' \<and> inv s' \<and> frame s s' \<and> space s' = space s \<union> set bs"
  using assms
proof (induction bs arbitrary: s)
  case (Cons b bs)
  have one: "{b..<b + 1} = {b}" by auto
  have "may_free s {b}" "may_free s (set bs)" by (rule may_free_subset [OF Cons.prems(2)]; auto)+
  then obtain t where t: "dealloc ino b 1 s = Some t" "inv t" "frame s t" "space t = space s \<union> {b}" "may_free t (set bs)"
    using dealloc_law [of s b 1 ino] Cons.prems may_free_frame unfolding one by (metis le_refl)
  then show ?case using Cons.IH [of t] frame_trans [OF t(3)] by auto
qed (simp add: frame_refl)

end

definition fs_frame :: "kstate \<Rightarrow> kstate \<Rightarrow> bool" where
  "fs_frame s s' \<longleftrightarrow> desc_frame s s' \<and> data_frame s s'"

interpretation ba: block_allocator ext2_new_blocks ext2_free_blocks
  "\<lambda>s. balloc_inv s \<and> 9 \<le> s_blocksize_bits (ks_sb s)" free_space freeable fs_frame "\<lambda>e. {be_quota e, - ENOSPC}"
proof
  fix s and ino count goal :: nat and e
  assume s: "balloc_inv s \<and> 9 \<le> s_blocksize_bits (ks_sb s)" and "ino \<noteq> 0" "1 \<le> count"
  then obtain b num err s' where r: "ext2_new_blocks e ino goal count s = Some ((b, num, err), s')" "balloc_inv s'"
    "new_blocks_spec e ino count s b num err s'" using new_blocks_ok [of s ino count e goal] by blast
  then show "\<exists>b num err s'. ext2_new_blocks e ino goal count s = Some ((b, num, err), s') \<and>
      (balloc_inv s' \<and> 9 \<le> s_blocksize_bits (ks_sb s')) \<and> fs_frame s s' \<and>
      (if err = 0 then 1 \<le> num \<and> num \<le> count \<and> {b..<b + num} \<subseteq> free_space s \<and> free_space s' = free_space s - {b..<b + num}
       else free_space s' = free_space s \<and> err \<in> {be_quota e, - ENOSPC})"
    using s data_frame_bits [of s s'] by (auto simp: new_blocks_spec_def fs_frame_def split: if_splits)
next
  fix s b num ino
  assume "balloc_inv s \<and> 9 \<le> s_blocksize_bits (ks_sb s)" "freeable s {b..<b + num}" "1 \<le> num"
  then show "\<exists>s'. ext2_free_blocks ino b num s = Some s' \<and> (balloc_inv s' \<and> 9 \<le> s_blocksize_bits (ks_sb s')) \<and>
      fs_frame s s' \<and> free_space s' = free_space s \<union> {b..<b + num}"
    using free_blocks_ok [of s b num ino] data_frame_bits by (fastforce simp: free_spec_def Let_def fs_frame_def)
next
  show "fs_frame s t \<Longrightarrow> fs_frame t u \<Longrightarrow> fs_frame s u" for s t u
    using data_frame_trans [of s t u] desc_frame_bitmaps [of s t] by (auto simp: fs_frame_def intro: desc_frame_trans)
qed (auto simp: fs_frame_def intro: free_run_freeable freeable_frame freeable_subset)

section \<open>Properties\<close>

text \<open>
  C9: freeing a run of data blocks on a sound file system always returns and leaves a sound file
  system whose free space has grown by exactly the run, also when the run spans several groups. The
  counter of free blocks and the block count of the inode change by the number of blocks of the run
  that were not free already. Apart from bitmaps, counters and dirty states nothing changes.
\<close>

theorem free_blocks_correct:
  assumes "balloc_inv s" and "freeable s {block..<block + count}" and "1 \<le> count"
  shows "\<exists>s'. ext2_free_blocks ino block count s = Some s' \<and> balloc_inv s' \<and>
    free_space s' = free_space s \<union> {block..<block + count} \<and>
    s_freeblocks_counter (ks_sbi s') = s_freeblocks_counter (ks_sbi s) + int (card ({block..<block + count} - free_space s)) \<and>
    (\<forall>ei. ks_icache s ino = Some ei \<longrightarrow> (\<exists>ei'. ks_icache s' ino = Some ei' \<and>
       i_blocks (vfs_inode ei') = i_blocks (vfs_inode ei) - blocks_512 s (card ({block..<block + count} - free_space s)))) \<and>
    desc_frame s s' \<and> data_frame s s'"
  using free_blocks_ok [OF assms, of ino] by (auto simp: free_spec_def Let_def)

lemma sample_alloc_20:
  "\<exists>b num s1. ext2_new_blocks sample_creds 12 20 4 sample_alloc_fs = Some ((b, num, 0), s1) \<and> 1 \<le> num \<and> balloc_inv s1 \<and>
     freeable s1 {b..<b + num} \<and> free_space s1 = free_space sample_alloc_fs - {b..<b + num}"
proof -
  let ?s = sample_alloc_fs
  have h: "balloc_inv ?s \<and> 9 \<le> s_blocksize_bits (ks_sb ?s)" using sample_alloc_fs_inv by (simp add: sample_alloc_fs_def sample_defs)
  have "ext2_group_first_block_no ?s 0 + 20 \<in> free_space ?s"
    using sample_bitmap_bits [of 20] by (subst free_space_iff) (simp_all add: group_bitmap_def sample_alloc_fs_def sample_windows_def
        sample_defs lookup_group_desc_def group_desc_index_def group_desc_offset_def)
  moreover have "ext2_has_free_blocks sample_creds ?s" "be_quota sample_creds = 0" by (simp_all add: ext2_has_free_blocks_def sample_creds_def)
  moreover obtain b num err s1 where r: "ext2_new_blocks sample_creds 12 20 4 ?s = Some ((b, num, err), s1)"
    "new_blocks_spec sample_creds 12 4 ?s b num err s1"
    using new_blocks_ok [of ?s 12 4 sample_creds 20] h by auto
  ultimately have "err = 0" by (auto simp: new_blocks_spec_def split: if_splits)
  then have a: "balloc_inv s1" "1 \<le> num" "fs_frame ?s s1" "{b..<b + num} \<subseteq> free_space ?s" "free_space s1 = free_space ?s - {b..<b + num}"
    using ba.alloc_law [OF h, of 12 4 sample_creds 20] r(1) by auto
  then show ?thesis using \<open>err = 0\<close> r(1) ba.may_free_frame [OF a(3) ba.free_may_free [OF h a(4)]] by blast
qed

theorem free_blocks_correct_witness:
  "\<exists>b num s1 s2. ext2_new_blocks sample_creds 12 20 4 sample_alloc_fs = Some ((b, num, 0), s1) \<and>
     ext2_free_blocks 12 b num s1 = Some s2 \<and> balloc_inv s2 \<and>
     s_freeblocks_counter (ks_sbi s2) = s_freeblocks_counter (ks_sbi s1) + int num"
proof -
  obtain b num s1 where r: "ext2_new_blocks sample_creds 12 20 4 sample_alloc_fs = Some ((b, num, 0), s1)" "1 \<le> num" "balloc_inv s1"
    "freeable s1 {b..<b + num}" "free_space s1 = free_space sample_alloc_fs - {b..<b + num}" using sample_alloc_20 by blast
  have "{b..<b + num} - free_space s1 = {b..<b + num}" using r(5) by blast
  then show ?thesis using r(1) free_blocks_correct [OF r(3,4,2), of 12] by auto
qed

text \<open>
  C12: freeing the blocks an allocation returned gives back the free space from before the allocation.
\<close>

theorem new_free_roundtrip:
  assumes "balloc_inv s" and "9 \<le> s_blocksize_bits (ks_sb s)" and "ino \<noteq> 0" and "1 \<le> count"
    and "ext2_new_blocks e ino goal count s = Some ((b, num, 0), s')"
  shows "\<exists>s''. ext2_free_blocks ino b num s' = Some s'' \<and> balloc_inv s'' \<and> free_space s'' = free_space s"
  using ba.alloc_dealloc [OF _ assms(3-5), of ino] assms(1,2) by blast

theorem new_free_roundtrip_witness:
  "\<exists>b num s1 s2. ext2_new_blocks sample_creds 12 20 4 sample_alloc_fs = Some ((b, num, 0), s1) \<and>
     ext2_free_blocks 12 b num s1 = Some s2 \<and> free_space s2 = free_space sample_alloc_fs"
proof -
  obtain b num s1 where r: "ext2_new_blocks sample_creds 12 20 4 sample_alloc_fs = Some ((b, num, 0), s1)" using sample_alloc_20 by blast
  have h: "9 \<le> s_blocksize_bits (ks_sb sample_alloc_fs)" "(12::nat) \<noteq> 0" "1 \<le> (4::nat)" by (simp_all add: sample_alloc_fs_def sample_defs)
  show ?thesis using r new_free_roundtrip [OF sample_alloc_fs_inv h r] by blast
qed

text \<open>
  C26: the check of system zones looks at the two ends of a run only. A run that starts before the
  inode table of its group and ends behind it passes the check, so the allocator and
  \<open>ext2_free_blocks\<close> accept a run that contains every block of the inode table.
\<close>

theorem system_zone_misses_inode_table:
  assumes "block < bg_inode_table d" and "bg_inode_table d + itb < block + count" and "block + count \<le> 2 ^ 32"
    and "bg_block_bitmap d < block" and "bg_inode_bitmap d < block"
  shows "\<not> system_zone d itb block count \<and> (\<forall>x. in_range x (bg_inode_table d) itb \<longrightarrow> block \<le> x \<and> x < block + count)"
proof -
  have "int (bg_inode_table d) + int itb - 1 < 2 ^ 32" using assms(2,3) by simp
  then have m: "(int (bg_inode_table d) + int itb - 1) mod 2 ^ 32 = int (bg_inode_table d) + int itb - 1"
    using assms(1) by (intro mod_pos_pos_trivial) auto
  then have "x < bg_inode_table d + itb" if "in_range x (bg_inode_table d) itb" for x using that by (simp add: in_range_def)
  then show ?thesis using assms by (fastforce simp: system_zone_def in_range_def)
qed

theorem system_zone_misses_inode_table_witness:
  "\<not> system_zone (sample_desc\<lparr>bg_inode_table := 7\<rparr>) 8 5 12"
  using system_zone_misses_inode_table [of 5 "sample_desc\<lparr>bg_inode_table := 7\<rparr>" 8 12] by (simp add: sample_desc_def)

end
