(* ===== verification/Blockmap.thy ===== *)
theory Blockmap
  imports Free_Blocks Ext2_Gps
begin

text \<open>
  The map from the blocks of a file to blocks of the device, \<open>fs/ext2/inode.c\<close> lines 110 to 762:
  the path to a block through the indirect blocks, reading and verifying a chain of pointers, and
  allocating and splicing the missing part of a chain. Pointers are places of \<open>__le32\<close> values, in the
  inode or in an indirect block; keys are kept as they are stored.
\<close>

section \<open>The path to a block\<close>

text \<open>
  \<open>ext2_block_to_path\<close>: the offsets, empty for an error, and the value left in \<open>*boundary\<close>.
  The last value of \<open>i_block\<close> in the code is what is left after the subtractions.
\<close>

definition EXT2_ADDR_PER_BLOCK :: "kstate \<Rightarrow> nat" where
  "EXT2_ADDR_PER_BLOCK s = s_blocksize (ks_sb s) div 4"

definition ext2_block_to_path :: "kstate \<Rightarrow> int \<Rightarrow> nat list \<times> int" where
  "ext2_block_to_path s i_block =
     (let ptrs = int (EXT2_ADDR_PER_BLOCK s);
          ptrs_bits = s_addr_per_block_bits (ks_sbi s);
          double_blocks = push_bit (ptrs_bits * 2) 1;
          b1 = i_block - 12; b2 = b1 - ptrs; b3 = b2 - double_blocks;
          low = (\<lambda>b. b AND (ptrs - 1)) in
      if i_block < 0 then ([], 0 - 1 - low i_block)
      else if i_block < 12 then ([nat i_block], 12 - 1 - low i_block)
      else if b1 < ptrs then ([EXT2_IND_BLOCK, nat b1], ptrs - 1 - low b1)
      else if b2 < double_blocks then
        ([EXT2_DIND_BLOCK, nat (drop_bit ptrs_bits b2), nat (low b2)], ptrs - 1 - low b2)
      else if drop_bit (ptrs_bits * 2) b3 < ptrs then
        ([EXT2_TIND_BLOCK, nat (drop_bit (ptrs_bits * 2) b3), nat (low (drop_bit ptrs_bits b3)), nat (low b3)],
         ptrs - 1 - low b3)
      else ([], 0 - 1 - low b3))"

section \<open>Chains of pointers\<close>

text \<open>The place of a pointer: an index of \<open>i_data\<close>, or an indirect block and an index in it.\<close>

datatype ptr_loc = In_inode nat | In_block nat nat

record Indirect =
  ind_p :: ptr_loc
  ind_key :: u32

fun ptr_plus :: "ptr_loc \<Rightarrow> nat \<Rightarrow> ptr_loc" where
  "ptr_plus (In_inode i) k = In_inode (i + k)"
| "ptr_plus (In_block b i) k = In_block b (i + k)"

fun ptr_index :: "ptr_loc \<Rightarrow> nat" where
  "ptr_index (In_inode i) = i"
| "ptr_index (In_block b i) = i"

fun ptr_at :: "ptr_loc \<Rightarrow> nat \<Rightarrow> ptr_loc" where
  "ptr_at (In_inode i) k = In_inode k"
| "ptr_at (In_block b i) k = In_block b k"

fun read_ptr :: "kstate \<Rightarrow> nat \<Rightarrow> ptr_loc \<Rightarrow> u32" where
  "read_ptr s ino (In_inode i) = (case ks_icache s ino of None \<Rightarrow> 0 | Some ei \<Rightarrow> i_data ei ! i)"
| "read_ptr s ino (In_block b i) = (case ks_dev s b of None \<Rightarrow> 0 | Some m \<Rightarrow> load_word (ks_arch s) m (4 * i))"

fun write_ptr :: "nat \<Rightarrow> ptr_loc \<Rightarrow> u32 \<Rightarrow> kstate \<Rightarrow> kstate" where
  "write_ptr ino (In_inode i) v s = upd_inode ino (\<lambda>ei. ei\<lparr>i_data := (i_data ei)[i := v]\<rparr>) s"
| "write_ptr ino (In_block b i) v s =
     (case ks_dev s b of None \<Rightarrow> s | Some m \<Rightarrow> put_block b (store_word (ks_arch s) m (4 * i) v) s)"

definition ptr_block :: "kstate \<Rightarrow> u32 \<Rightarrow> nat" where
  "ptr_block s key = unat (le_to_cpu (ks_arch s) key)"

definition block_ptr :: "kstate \<Rightarrow> nat \<Rightarrow> u32" where
  "block_ptr s b = cpu_to_le (ks_arch s) (of_nat b)"

definition add_chain :: "kstate \<Rightarrow> nat \<Rightarrow> ptr_loc \<Rightarrow> Indirect" where
  "add_chain s ino p = \<lparr>ind_p = p, ind_key = read_ptr s ino p\<rparr>"

definition verify_chain :: "kstate \<Rightarrow> nat \<Rightarrow> Indirect list \<Rightarrow> bool" where
  "verify_chain s ino chain \<longleftrightarrow> list_all (\<lambda>c. ind_key c = read_ptr s ino (ind_p c)) chain"

text \<open>
  \<open>ext2_get_branch\<close>. Reading an indirect block may sleep; \<open>other i\<close> is what other threads do while
  the block of the i-th link is read. The result is the chain filled so far, whether it is the whole
  chain (the code returns NULL), and the error.
\<close>

fun branch_loop ::
  "(nat \<Rightarrow> kstate \<Rightarrow> kstate) \<Rightarrow> nat \<Rightarrow> nat list \<Rightarrow> Indirect list \<Rightarrow> kstate \<Rightarrow> (Indirect list \<times> bool \<times> int) \<times> kstate" where
  "branch_loop other ino [] chain s = ((chain, True, 0), s)"
| "branch_loop other ino (off # offs) chain s =
     (let b = ptr_block s (ind_key (last chain)); s1 = other (length chain) s in
      case ks_dev s1 b of
        None \<Rightarrow> ((chain, False, - EIO), s1)
      | Some m \<Rightarrow>
          if \<not> verify_chain s1 ino chain then ((chain, False, - EAGAIN), s1)
          else
            let link = add_chain s1 ino (In_block b off) in
            if ind_key link = 0 then ((chain @ [link], False, 0), s1)
            else branch_loop other ino offs (chain @ [link]) s1)"

definition ext2_get_branch ::
  "(nat \<Rightarrow> kstate \<Rightarrow> kstate) \<Rightarrow> nat \<Rightarrow> nat list \<Rightarrow> kstate \<Rightarrow> (Indirect list \<times> bool \<times> int) \<times> kstate" where
  "ext2_get_branch other ino offsets s =
     (let link = add_chain s ino (In_inode (hd offsets)) in
      if ind_key link = 0 then (([link], False, 0), s) else branch_loop other ino (tl offsets) [link] s)"

section \<open>Where to allocate\<close>

definition ext2_find_near :: "nat \<Rightarrow> nat \<Rightarrow> Indirect \<Rightarrow> kstate \<Rightarrow> nat" where
  "ext2_find_near pid ino ind s =
     (case find (\<lambda>j. read_ptr s ino (ptr_at (ind_p ind) j) \<noteq> 0) (rev [0..<ptr_index (ind_p ind)]) of
        Some j \<Rightarrow> ptr_block s (read_ptr s ino (ptr_at (ind_p ind) j))
      | None \<Rightarrow>
          (case ind_p ind of
             In_block b i \<Rightarrow> b
           | In_inode i \<Rightarrow>
               (case ks_icache s ino of
                  None \<Rightarrow> 0
                | Some ei \<Rightarrow> ext2_group_first_block_no s (i_block_group ei) +
                    (pid mod 16) * (s_blocks_per_group (ks_sbi s) div 16))))"

definition ext2_find_goal :: "nat \<Rightarrow> nat \<Rightarrow> int \<Rightarrow> Indirect \<Rightarrow> kstate \<Rightarrow> nat" where
  "ext2_find_goal pid ino block ind s =
     (case Option.bind (ks_icache s ino) i_block_alloc_info of
        None \<Rightarrow> ext2_find_near pid ino ind s
      | Some bi \<Rightarrow>
          if block = int (last_alloc_logical_block bi) + 1 \<and> last_alloc_physical_block bi \<noteq> 0
          then last_alloc_physical_block bi + 1
          else ext2_find_near pid ino ind s)"

fun count_free_ptrs :: "nat \<Rightarrow> kstate \<Rightarrow> nat \<Rightarrow> ptr_loc \<Rightarrow> int \<Rightarrow> nat \<Rightarrow> nat" where
  "count_free_ptrs 0 s ino p boundary count = count"
| "count_free_ptrs (Suc n) s ino p boundary count =
     (if int count \<le> boundary \<and> read_ptr s ino (ptr_plus p count) = 0
      then count_free_ptrs n s ino p boundary (count + 1) else count)"

definition ext2_blks_to_allocate :: "kstate \<Rightarrow> nat \<Rightarrow> ptr_loc \<Rightarrow> nat \<Rightarrow> nat \<Rightarrow> int \<Rightarrow> nat" where
  "ext2_blks_to_allocate s ino p k blks blocks_to_boundary =
     (if k > 0 then (if int blks < blocks_to_boundary + 1 then blks else nat (blocks_to_boundary + 1))
      else count_free_ptrs (blks - 1) s ino p blocks_to_boundary 1)"

section \<open>Allocating a branch\<close>

text \<open>The loop at \<open>failed_out\<close>.\<close>

primrec free_each :: "nat \<Rightarrow> nat list \<Rightarrow> kstate \<Rightarrow> kstate option" where
  "free_each ino [] s = Some s"
| "free_each ino (b # bs) s =
     (case ext2_free_blocks ino b 1 s of None \<Rightarrow> None | Some s' \<Rightarrow> free_each ino bs s')"

text \<open>
  \<open>ext2_alloc_blocks\<close>; \<open>new_blocks\<close> are the indirect blocks so far. The result is the indirect blocks
  followed by the first direct block, the number of direct blocks, and the error. Every round but the
  last allocates an indirect block.
\<close>

fun alloc_blocks_loop ::
  "nat \<Rightarrow> balloc_env \<Rightarrow> nat \<Rightarrow> nat \<Rightarrow> nat \<Rightarrow> nat \<Rightarrow> nat list \<Rightarrow> kstate \<Rightarrow> ((nat list \<times> nat \<times> int) \<times> kstate) option" where
  "alloc_blocks_loop 0 e ino goal indirect_blks target new_blocks s = None"
| "alloc_blocks_loop (Suc n) e ino goal indirect_blks target new_blocks s =
     (case ext2_new_blocks e ino goal target s of
        None \<Rightarrow> None
      | Some ((current_block, count, err), s1) \<Rightarrow>
          if err \<noteq> 0 then
            (case free_each ino new_blocks s1 of
               None \<Rightarrow> None
             | Some s2 \<Rightarrow> Some (([], 0, err), if new_blocks \<noteq> [] then upd_inode ino mark_inode_dirty s2 else s2))
          else
            let k = min count (indirect_blks - length new_blocks);
                nb = new_blocks @ [current_block..<current_block + k] in
            if count - k > 0 then Some ((nb @ [current_block + k], count - k, 0), s1)
            else alloc_blocks_loop n e ino goal indirect_blks (target - count) nb s1)"

definition ext2_alloc_blocks ::
  "balloc_env \<Rightarrow> nat \<Rightarrow> nat \<Rightarrow> nat \<Rightarrow> nat \<Rightarrow> kstate \<Rightarrow> ((nat list \<times> nat \<times> int) \<times> kstate) option" where
  "ext2_alloc_blocks e ino goal indirect_blks blks s =
     alloc_blocks_loop (indirect_blks + 1) e ino goal indirect_blks (blks + indirect_blks) [] s"

text \<open>
  A new indirect block: zeroed, with the pointer to the next block of the branch, and in the last one
  the pointers to all direct blocks.
\<close>

definition indirect_block :: "kstate \<Rightarrow> nat \<Rightarrow> nat list \<Rightarrow> mem" where
  "indirect_block s off bs = store_words (ks_arch s) (\<lambda>_. 0) (4 * off) (map (block_ptr s) bs)"

primrec link_branch :: "nat list \<Rightarrow> nat list \<Rightarrow> nat \<Rightarrow> kstate \<Rightarrow> kstate" where
  "link_branch [] new_blocks num s = s"
| "link_branch (off # offs) new_blocks num s =
     (let b = hd new_blocks; nx = new_blocks ! 1;
          targets = (if offs = [] then [nx..<nx + num] else [nx]);
          s1 = put_block b (indirect_block s off targets) s in
      link_branch offs (tl new_blocks) num (s1\<lparr>ks_uptodate := (ks_uptodate s1)(b := True)\<rparr>))"

definition branch_links :: "kstate \<Rightarrow> ptr_loc \<Rightarrow> nat list \<Rightarrow> nat list \<Rightarrow> Indirect list" where
  "branch_links s p offs new_blocks =
     \<lparr>ind_p = p, ind_key = block_ptr s (hd new_blocks)\<rparr> #
     map (\<lambda>(off, b, nx). \<lparr>ind_p = In_block b off, ind_key = block_ptr s nx\<rparr>) (zip offs (zip new_blocks (tl new_blocks)))"

text \<open>
  \<open>ext2_alloc_branch\<close>: \<open>p\<close> is the place of the missing link, \<open>offs\<close> the offsets in the new indirect
  blocks. The result is the error, the branch and the number of direct blocks.
\<close>

definition ext2_alloc_branch ::
  "balloc_env \<Rightarrow> nat \<Rightarrow> nat list \<Rightarrow> nat \<Rightarrow> nat \<Rightarrow> ptr_loc \<Rightarrow> kstate \<Rightarrow> ((int \<times> Indirect list \<times> nat) \<times> kstate) option" where
  "ext2_alloc_branch e ino offs blks goal p s =
     (case ext2_alloc_blocks e ino goal (length offs) blks s of
        None \<Rightarrow> None
      | Some ((new_blocks, num, err), s1) \<Rightarrow>
          if err \<noteq> 0 then Some ((err, [], 0), s1)
          else Some ((0, branch_links s1 p offs new_blocks, num), link_branch offs new_blocks num s1))"

text \<open>\<open>ext2_splice_branch\<close>: \<open>branch\<close> starts with the missing link.\<close>

primrec write_run :: "nat \<Rightarrow> ptr_loc \<Rightarrow> nat \<Rightarrow> nat \<Rightarrow> kstate \<Rightarrow> kstate" where
  "write_run ino p b 0 s = s"
| "write_run ino p b (Suc n) s = write_run ino (ptr_plus p 1) (b + 1) n (write_ptr ino p (block_ptr s b) s)"

definition set_last_alloc :: "nat \<Rightarrow> nat \<Rightarrow> nat \<Rightarrow> kstate \<Rightarrow> kstate" where
  "set_last_alloc ino logical physical =
     upd_inode ino (\<lambda>ei. ei\<lparr>i_block_alloc_info := map_option (\<lambda>_.
       \<lparr>last_alloc_logical_block = logical, last_alloc_physical_block = physical\<rparr>) (i_block_alloc_info ei)\<rparr>)"

definition ext2_splice_branch :: "nat \<Rightarrow> int \<Rightarrow> Indirect list \<Rightarrow> nat \<Rightarrow> kstate \<Rightarrow> kstate" where
  "ext2_splice_branch ino block branch blks s =
     (let link = hd branch; num = length branch - 1;
          s1 = write_ptr ino (ind_p link) (ind_key link) s;
          s2 = (if num = 0 \<and> blks > 1
                then write_run ino (ptr_plus (ind_p link) 1) (ptr_block s (ind_key link) + 1) (blks - 1) s1 else s1);
          s3 = set_last_alloc ino (nat (block + int blks - 1)) (ptr_block s (ind_key (last branch)) + blks - 1) s2;
          s4 = upd_inode ino (upd_vfs (\<lambda>v. v\<lparr>i_ctime := \<lparr>tv_sec = get_seconds s3, tv_nsec = 0\<rparr>\<rparr>)) s3;
          s5 = snd (ext2_set_gps ino s4) in
      upd_inode ino mark_inode_dirty s5)"

section \<open>Mapping blocks of a file\<close>

text \<open>
  The parts of the outside world: credentials and quota, the process, and what other threads do while
  this one sleeps in the first lookup, between two looks at the mapped run, while it waits for the
  mutex, and in the second lookup.
\<close>

record get_env =
  ge_balloc :: balloc_env
  ge_pid :: nat
  ge_lookup :: "nat \<Rightarrow> kstate \<Rightarrow> kstate"
  ge_mapping :: "nat \<Rightarrow> kstate \<Rightarrow> kstate"
  ge_wait :: "kstate \<Rightarrow> kstate"
  ge_relookup :: "nat \<Rightarrow> kstate \<Rightarrow> kstate"

record buffer_result =
  bh_block :: "nat option"
  bh_new :: bool
  bh_boundary :: bool

text \<open>The loop that maps more blocks; the flag is set when the chain changed.\<close>

fun map_more ::
  "nat \<Rightarrow> (nat \<Rightarrow> kstate \<Rightarrow> kstate) \<Rightarrow> nat \<Rightarrow> Indirect list \<Rightarrow> int \<Rightarrow> nat \<Rightarrow> kstate \<Rightarrow> (nat \<times> bool) \<times> kstate" where
  "map_more 0 other ino chain boundary count s = ((count, False), s)"
| "map_more (Suc n) other ino chain boundary count s =
     (if int count \<le> boundary then
        let s1 = other count s in
        if \<not> verify_chain s1 ino chain then ((0, True), s1)
        else if le_to_cpu (ks_arch s1) (read_ptr s1 ino (ptr_plus (ind_p (last chain)) count)) =
                le_to_cpu (ks_arch s1) (ind_key (last chain)) + of_nat count
        then map_more n other ino chain boundary (count + 1) s1
        else ((count, False), s1)
      else ((count, False), s))"

definition got_it :: "Indirect list \<Rightarrow> nat \<Rightarrow> int \<Rightarrow> buffer_result \<Rightarrow> kstate \<Rightarrow> (int \<times> buffer_result) \<times> kstate" where
  "got_it chain count boundary bh s =
     ((int count, bh\<lparr>bh_block := Some (ptr_block s (ind_key (last chain))),
                     bh_boundary := bh_boundary bh \<or> int count > boundary\<rparr>), s)"

definition alloc_and_splice ::
  "get_env \<Rightarrow> nat \<Rightarrow> int \<Rightarrow> nat list \<Rightarrow> int \<Rightarrow> nat \<Rightarrow> Indirect list \<Rightarrow> buffer_result \<Rightarrow> kstate \<Rightarrow>
     ((int \<times> buffer_result) \<times> kstate) option" where
  "alloc_and_splice e ino iblock offsets boundary maxblocks chain bh s =
     (let s1 = (case ks_icache s ino of
                  None \<Rightarrow> s
                | Some ei \<Rightarrow>
                    if S_ISREG (i_mode (vfs_inode ei)) \<and> i_block_alloc_info ei = None
                    then ext2_init_block_alloc_info ino s else s);
          goal = ext2_find_goal (ge_pid e) ino iblock (last chain) s1;
          offs = drop (length chain) offsets;
          count = ext2_blks_to_allocate s1 ino (ind_p (last chain)) (length offs) maxblocks boundary in
      case ext2_alloc_branch (ge_balloc e) ino offs count goal (ind_p (last chain)) s1 of
        None \<Rightarrow> None
      | Some ((err, branch, num), s2) \<Rightarrow>
          if err \<noteq> 0 then Some ((err, bh), s2)
          else Some (got_it branch num boundary (bh\<lparr>bh_new := True\<rparr>) (ext2_splice_branch ino iblock branch num s2)))"

definition ext2_get_blocks ::
  "get_env \<Rightarrow> nat \<Rightarrow> int \<Rightarrow> nat \<Rightarrow> buffer_result \<Rightarrow> bool \<Rightarrow> kstate \<Rightarrow> ((int \<times> buffer_result) \<times> kstate) option" where
  "ext2_get_blocks e ino iblock maxblocks bh create s =
     (case ext2_block_to_path s iblock of
        (offsets, boundary) \<Rightarrow>
          if offsets = [] then Some ((- EIO, bh), s)
          else
            let ((chain, whole, err), s1) = ext2_get_branch (ge_lookup e) ino offsets s;
                bh1 = (if whole then bh\<lparr>bh_new := False\<rparr> else bh);
                ((count, again), s2) =
                  (if whole then map_more (maxblocks - 1) (ge_mapping e) ino chain boundary 1 s1 else ((0, False), s1));
                err1 = (if again then - EAGAIN else err) in
            if whole \<and> \<not> again then Some (got_it chain count boundary bh1 s2)
            else if \<not> create \<or> err1 = - EIO then Some ((err1, bh1), s2)
            else
              let s3 = ge_wait e s2 in
              if err1 = - EAGAIN \<or> \<not> verify_chain s3 ino chain then
                let ((chain2, whole2, err2), s4) = ext2_get_branch (ge_relookup e) ino offsets s3 in
                if whole2 then Some (got_it chain2 1 boundary (bh1\<lparr>bh_new := False\<rparr>) s4)
                else alloc_and_splice e ino iblock offsets boundary maxblocks chain2 bh1 s4
              else alloc_and_splice e ino iblock offsets boundary maxblocks chain bh1 s3)"

text \<open>\<open>ext2_get_block\<close>: the number of blocks comes from and goes to \<open>b_size\<close>.\<close>

definition ext2_get_block ::
  "get_env \<Rightarrow> nat \<Rightarrow> int \<Rightarrow> nat \<Rightarrow> buffer_result \<Rightarrow> bool \<Rightarrow> kstate \<Rightarrow> ((int \<times> nat \<times> buffer_result) \<times> kstate) option" where
  "ext2_get_block e ino iblock b_size bh create s =
     (let bits = s_blocksize_bits (ks_sb s) in
      map_option (\<lambda>((ret, bh'), s'). if ret > 0 then ((0, nat ret * 2 ^ bits, bh'), s') else ((ret, b_size, bh'), s'))
        (ext2_get_blocks e ino iblock (drop_bit bits b_size) bh create s))"

section \<open>Paths and block numbers\<close>


definition addr_ok :: "kstate \<Rightarrow> bool" where
  "addr_ok s \<longleftrightarrow> EXT2_ADDR_PER_BLOCK s = 2 ^ s_addr_per_block_bits (ks_sbi s) \<and> 4 \<le> s_addr_per_block_bits (ks_sbi s)"

definition max_file_blocks :: "kstate \<Rightarrow> int" where
  "max_file_blocks s = (let p = int (EXT2_ADDR_PER_BLOCK s) in 12 + p + p ^ 2 + p ^ 3)"

text \<open>The number of the block a path leads to.\<close>

fun path_block :: "int \<Rightarrow> nat list \<Rightarrow> int" where
  "path_block p [i] = int i"
| "path_block p [_, i] = 12 + int i"
| "path_block p [_, i, j] = 12 + p + (int i * p + int j)"
| "path_block p [_, i, j, k] = 12 + p + p ^ 2 + ((int i * p + int j) * p + int k)"
| "path_block p _ = 0"

definition path_ok :: "nat \<Rightarrow> nat list \<Rightarrow> bool" where
  "path_ok p os \<longleftrightarrow> 1 \<le> length os \<and> length os \<le> 4 \<and>
     (if length os = 1 then hd os < 12 else hd os = 10 + length os) \<and> (\<forall>i\<in>set (tl os). i < p)"

lemma low_mod: "(b :: int) AND (2 ^ k - 1) = b mod 2 ^ k"
  by (simp add: take_bit_eq_mask [symmetric] mask_eq_exp_minus_1 [symmetric] take_bit_eq_mod)

lemma int_div_less: "(c :: int) < p * q \<Longrightarrow> 0 < q \<Longrightarrow> c div q < p"
  by (smt (verit) mult_right_mono pos_mod_sign div_mult_mod_eq)

lemma path_cases:
  assumes "addr_ok s" "0 \<le> b" "b < max_file_blocks s"
  defines "p \<equiv> int (EXT2_ADDR_PER_BLOCK s)"
  shows "ext2_block_to_path s b =
    (if b < 12 then ([nat b], 11 - b)
     else if b < 12 + p then ([12, nat (b - 12)], p - 1 - (b - 12))
     else if b < 12 + p + p ^ 2 then ([13, nat ((b - 12 - p) div p), nat ((b - 12 - p) mod p)], p - 1 - (b - 12 - p) mod p)
     else let c = b - 12 - p - p ^ 2 in
       ([14, nat (c div p ^ 2), nat (c div p mod p), nat (c mod p)], p - 1 - c mod p))"
proof -
  obtain k where k: "s_addr_per_block_bits (ks_sbi s) = k" "EXT2_ADDR_PER_BLOCK s = 2 ^ k" "4 \<le> k"
    using assms(1) by (auto simp: addr_ok_def)
  have p: "p = 2 ^ k" and "p ^ 2 = 2 ^ (k * 2)" using k by (simp_all add: p_def power_mult)
  moreover have "16 \<le> p" using power_increasing [of 4 k "2 :: int"] k(3) by (simp add: p)
  moreover have "b - 12 - p - p ^ 2 < p * p ^ 2"
    using assms(3) by (simp add: max_file_blocks_def Let_def p_def power2_eq_square power3_eq_cube algebra_simps)
  then have "(b - 12 - p - p ^ 2) div p ^ 2 < p"
    using \<open>16 \<le> p\<close> by (simp add: int_div_less)
  ultimately show ?thesis
    using assms(2) k(3)
    by (simp add: ext2_block_to_path_def k low_mod Let_def drop_bit_eq_div push_bit_eq_mult)
qed

lemma addr_ok_ge: "addr_ok s \<Longrightarrow> 16 \<le> int (EXT2_ADDR_PER_BLOCK s)"
  using power_increasing [of 4 "s_addr_per_block_bits (ks_sbi s)" "2 :: int"] by (simp add: addr_ok_def)

lemma path_ok_cases [simp]:
  "path_ok p [i] \<longleftrightarrow> i < 12" "path_ok p [a, i] \<longleftrightarrow> a = 12 \<and> i < p"
  "path_ok p [a, i, j] \<longleftrightarrow> a = 13 \<and> i < p \<and> j < p"
  "path_ok p [a, i, j, k] \<longleftrightarrow> a = 14 \<and> i < p \<and> j < p \<and> k < p"
  by (auto simp: path_ok_def)

lemma path_ok_elim:
  assumes "path_ok p os"
  obtains i where "os = [i]" "i < 12" | i where "os = [12, i]" "i < p" | i j where "os = [13, i, j]" "i < p" "j < p"
  | i j k where "os = [14, i, j, k]" "i < p" "j < p" "k < p"
proof -
  have "length os = 1 \<or> length os = 2 \<or> length os = 3 \<or> length os = 4" using assms by (auto simp: path_ok_def)
  then show ?thesis using assms that by (auto simp: length_Suc_conv eval_nat_numeral(2,3))
qed

lemma digits_below: "i < n \<Longrightarrow> j < p \<Longrightarrow> int i * int p + int j < int n * int p"
proof -
  assume "i < n" "j < p"
  then have "(int i + 1) * int p \<le> int n * int p" by (intro mult_right_mono) simp_all
  then show ?thesis using \<open>j < p\<close> by (simp add: algebra_simps)
qed

lemma digits_below': "(i :: nat) < n \<Longrightarrow> j < p \<Longrightarrow> i * p + j < n * p"
  using digits_below [of i n j p] by (metis of_nat_add of_nat_less_iff of_nat_mult)

lemma path_of_block:
  assumes "addr_ok s" "path_ok (EXT2_ADDR_PER_BLOCK s) os"
  shows "0 \<le> path_block (int (EXT2_ADDR_PER_BLOCK s)) os" "path_block (int (EXT2_ADDR_PER_BLOCK s)) os < max_file_blocks s"
    "ext2_block_to_path s (path_block (int (EXT2_ADDR_PER_BLOCK s)) os) =
       (os, (if length os = 1 then 11 else int (EXT2_ADDR_PER_BLOCK s) - 1) - int (last os))"
proof -
  define n p where "n = EXT2_ADDR_PER_BLOCK s" and "p = int n"
  note P = assms(2) [folded n_def]
  have p: "16 \<le> p" using addr_ok_ge [OF assms(1)] by (simp add: p_def n_def)
  have pw: "int i < m \<Longrightarrow> int i < m + p ^ 2 + p ^ 3" for i m
    using zero_le_power2 [of p] zero_le_power [of p 3] p by linarith
  have "0 \<le> path_block p os \<and> path_block p os < 12 + p + p ^ 2 + p ^ 3"
    using P
  proof (elim path_ok_elim)
    fix i j k assume "os = [14, i, j, k]" "i < n" "j < n" "k < n"
    then show ?thesis
      using digits_below [OF digits_below', of i n j n k n] by (simp add: p_def power2_eq_square power3_eq_cube)
  next
    fix i j assume "os = [13, i, j]" "i < n" "j < n"
    then show ?thesis
      using digits_below [of i n j n] zero_le_power [OF of_nat_0_le_iff, of n 3] by (simp add: p_def power2_eq_square less_le_trans)
  next
    fix i assume "os = [12, i]" "i < n"
    then show ?thesis using pw [of i p] by (simp add: p_def)
  next
    fix i assume "os = [i]" "i < 12"
    then show ?thesis using pw [of i "12 + p"] p by (simp add: p_def)
  qed
  then show B: "0 \<le> path_block (int (EXT2_ADDR_PER_BLOCK s)) os" "path_block (int (EXT2_ADDR_PER_BLOCK s)) os < max_file_blocks s"
    by (simp_all add: n_def p_def max_file_blocks_def Let_def)
  show "ext2_block_to_path s (path_block (int (EXT2_ADDR_PER_BLOCK s)) os) =
       (os, (if length os = 1 then 11 else int (EXT2_ADDR_PER_BLOCK s) - 1) - int (last os))"
    using P digits_below [of _ n _ n] p
    unfolding path_cases [OF assms(1) B] unfolding n_def [symmetric] p_def [symmetric]
    by (elim path_ok_elim) (simp_all add: Let_def p_def power2_eq_square not_less zdiv_zmult2_eq)
qed

lemma path_valid:
  assumes "addr_ok s" "0 \<le> b" "b < max_file_blocks s" "ext2_block_to_path s b = (os, bd)"
  shows "path_ok (EXT2_ADDR_PER_BLOCK s) os \<and> path_block (int (EXT2_ADDR_PER_BLOCK s)) os = b"
proof -
  define p where "p = int (EXT2_ADDR_PER_BLOCK s)"
  have p: "16 \<le> p" "EXT2_ADDR_PER_BLOCK s = nat p" using addr_ok_ge [OF assms(1)] by (simp_all add: p_def)
  define c where "c = b - 12 - p - p ^ 2"
  have "c < p * p ^ 2"
    using assms(3) by (simp add: max_file_blocks_def Let_def p_def c_def power2_eq_square power3_eq_cube algebra_simps)
  then have c: "c div p ^ 2 < p" using int_div_less p(1) by simp
  have q: "c div p ^ 2 = c div p div p" using p(1) by (simp add: power2_eq_square zdiv_zmult2_eq)
  define d where "d = b - 12 - p"
  have d: "b < 12 + p + p ^ 2 \<Longrightarrow> d div p < p" using int_div_less [of d p p] p(1) by (simp add: d_def power2_eq_square)
  have e: "(c div p div p * p + c div p mod p) * p + c mod p = c" "d div p * p + d mod p = d" by simp_all
  have cd: "b - 12 - p = d" "d - p ^ 2 = c" by (simp_all add: c_def d_def)
  note cases = assms(4) [unfolded path_cases [OF assms(1-3), folded p_def] cd Let_def]
  have m: "0 \<le> c mod p" "c mod p < p" "0 \<le> c div p mod p" "c div p mod p < p" "0 \<le> d mod p" "d mod p < p" using p(1) by simp_all
  consider "b < 12" | "12 \<le> b" "b < 12 + p" | "12 + p \<le> b" "b < 12 + p + p ^ 2" | "12 + p + p ^ 2 \<le> b" by linarith
  then show ?thesis
  proof cases
    case 1 then show ?thesis using cases assms(2) by (auto simp: p(2))
  next
    case 2 then show ?thesis using cases p(1) by (auto simp: p(2))
  next
    case 3
    then have "0 \<le> d div p" using p(1) by (simp add: d_def pos_imp_zdiv_nonneg_iff)
    then have "os = [13, nat (d div p), nat (d mod p)]" "d div p < p" using 3 cases d p(1) by auto
    then show ?thesis using m(5,6) e(2) p(1) \<open>0 \<le> d div p\<close> by (simp add: p(2) d_def nat_less_eq_zless)
  next
    case 4
    then have "0 \<le> c div p div p" using p(1) by (simp add: c_def pos_imp_zdiv_nonneg_iff)
    moreover have "\<not> b < 12" "\<not> b < 12 + p" using 4 p(1) zero_le_power2 [of p] by linarith+
    then have "os = [14, nat (c div p ^ 2), nat (c div p mod p), nat (c mod p)]" using 4 cases by simp
    ultimately show ?thesis using m(1-4) e(1) p(1) c q by (simp add: p(2) c_def nat_less_eq_zless)
  qed
qed

lemma path_step:
  assumes "path_ok p os" "last os + k < (if length os = 1 then 12 else p)"
  shows "path_ok p (butlast os @ [last os + k])" "path_block q (butlast os @ [last os + k]) = path_block q os + int k"
  using assms by (auto elim!: path_ok_elim)

lemma path_boundary:
  assumes "addr_ok s" "0 \<le> b" "b < max_file_blocks s" "ext2_block_to_path s b = (os, bd)" "int k \<le> bd"
  shows "ext2_block_to_path s (b + int k) = (butlast os @ [last os + k], bd - int k)"
proof -
  note v = path_valid [OF assms(1-4)]
  have bd: "bd = (if length os = 1 then 11 else int (EXT2_ADDR_PER_BLOCK s) - 1) - int (last os)"
    using path_of_block(3) [OF assms(1), of os] v assms(4) by simp
  then have k: "last os + k < (if length os = 1 then 12 else EXT2_ADDR_PER_BLOCK s)" using assms(5) by (auto split: if_splits)
  have "1 \<le> length os" using v by (simp add: path_ok_def)
  then show ?thesis
    using path_of_block(3) [OF assms(1) path_step(1) [OF _ k]] v path_step(2) [OF _ k, of "int (EXT2_ADDR_PER_BLOCK s)"] bd
    by (simp split: if_splits)
qed

lemma path_error:
  assumes "addr_ok s"
  shows "fst (ext2_block_to_path s b) = [] \<longleftrightarrow> b < 0 \<or> max_file_blocks s \<le> b"
proof (cases "b < 0 \<or> max_file_blocks s \<le> b")
  case True
  obtain k where k: "s_addr_per_block_bits (ks_sbi s) = k" "EXT2_ADDR_PER_BLOCK s = 2 ^ k" using assms by (auto simp: addr_ok_def)
  define p q where "p = (2 :: int) ^ k" and "q = (2 :: int) ^ (k * 2)"
  have pq: "1 \<le> p" "1 \<le> q" "max_file_blocks s = 12 + p + q + p * q"
    by (simp_all add: p_def q_def) (simp add: max_file_blocks_def k Let_def power_mult power2_eq_square power3_eq_cube)
  show ?thesis
  proof (cases "b < 0")
    case False
    then have b: "p * q \<le> b - 12 - p - q" using True pq(3) by simp
    then have "p \<le> (b - 12 - p - q) div q" using zdiv_mono1 [OF b, of q] pq(2) by simp
    moreover have "0 \<le> p * q" using pq by simp
    then have "\<not> b < 12" "\<not> b - 12 < p" "\<not> b - 12 - p < q" using b pq(1,2) by linarith+
    ultimately show ?thesis
      using True by (simp add: ext2_block_to_path_def k p_def [symmetric] q_def [symmetric] Let_def drop_bit_eq_div push_bit_eq_mult)
  qed (simp add: ext2_block_to_path_def Let_def)
next
  case False
  then show ?thesis
    using path_valid [OF assms, of b] by (cases "ext2_block_to_path s b") (auto simp: path_ok_def)
qed

lemma path_next:
  assumes "addr_ok s" "0 \<le> b" "b < max_file_blocks s" "ext2_block_to_path s b = (os, bd)"
  shows "0 \<le> bd" "butlast (fst (ext2_block_to_path s (b + bd + 1))) \<noteq> butlast os"
proof -
  note v = path_valid [OF assms]
  define n os' where "n = EXT2_ADDR_PER_BLOCK s" and "os' = fst (ext2_block_to_path s (b + bd + 1))"
  have bd: "bd = (if length os = 1 then 11 else int n - 1) - int (last os)"
    using path_of_block(3) [OF assms(1), of os] v assms(4) by (simp add: n_def)
  then show nn: "0 \<le> bd" using v by (auto elim!: path_ok_elim simp: n_def)
  show "butlast (fst (ext2_block_to_path s (b + bd + 1))) \<noteq> butlast os"
  proof (cases "b + bd + 1 < max_file_blocks s")
    case True
    then have "path_ok n os'" "path_block (int n) os' = b + bd + 1"
      using path_valid [OF assms(1), of "b + bd + 1" os'] assms(2) nn by (auto simp: n_def os'_def prod_eq_iff)
    then show ?thesis using v bd unfolding n_def [symmetric] os'_def [symmetric] by (auto elim!: path_ok_elim)
  next
    case False
    then have "os' = []" using path_error [OF assms(1), of "b + bd + 1"] by (simp add: os'_def)
    then show ?thesis using v bd addr_ok_ge [OF assms(1)] False unfolding n_def [symmetric] os'_def [symmetric]
      by (auto elim!: path_ok_elim simp: max_file_blocks_def Let_def n_def [symmetric] add_pos_nonneg)
  qed
qed

section \<open>Looking a block up\<close>

text \<open>
  The chain of links a path leads through: a link for the inode, then one for each indirect block,
  up to the first missing pointer.
\<close>

fun links :: "kstate \<Rightarrow> nat \<Rightarrow> ptr_loc \<Rightarrow> nat list \<Rightarrow> Indirect list" where
  "links s ino p [] = [add_chain s ino p]"
| "links s ino p (off # offs) =
     (if read_ptr s ino p = 0 then [add_chain s ino p]
      else add_chain s ino p # links s ino (In_block (ptr_block s (read_ptr s ino p)) off) offs)"

definition path_links :: "kstate \<Rightarrow> nat \<Rightarrow> nat list \<Rightarrow> Indirect list" where
  "path_links s ino os = links s ino (In_inode (hd os)) (tl os)"

text \<open>The pointer to a block of a file, as it is stored; zero for a hole.\<close>

definition file_ptr :: "kstate \<Rightarrow> nat \<Rightarrow> int \<Rightarrow> u32" where
  "file_ptr s ino b = ind_key (last (path_links s ino (fst (ext2_block_to_path s b))))"

lemma links_nonempty [simp]: "links s ino p offs \<noteq> []"
  by (cases offs) simp_all

lemma path_links_nonempty [simp]: "path_links s ino os \<noteq> []"
  by (simp add: path_links_def)

lemma add_chain_sel [simp]: "ind_p (add_chain s ino p) = p" "ind_key (add_chain s ino p) = read_ptr s ino p"
  by (simp_all add: add_chain_def)

text \<open>
  What a chain read so far says about any later state in which it still verifies: the path goes
  through it.
\<close>

definition leads :: "arch \<Rightarrow> nat \<Rightarrow> nat \<Rightarrow> nat list \<Rightarrow> Indirect list \<Rightarrow> bool" where
  "leads A ino o0 pre chain \<longleftrightarrow> chain \<noteq> [] \<and> (\<forall>c\<in>set chain. ind_key c \<noteq> 0) \<and>
     (\<forall>s offs. ks_arch s = A \<longrightarrow> verify_chain s ino chain \<longrightarrow>
        links s ino (In_inode o0) (pre @ offs) = butlast chain @ links s ino (ind_p (last chain)) offs)"

lemma verify_chain_append [simp]:
  "verify_chain s ino (xs @ ys) \<longleftrightarrow> verify_chain s ino xs \<and> verify_chain s ino ys"
  "verify_chain s ino [] " "verify_chain s ino (c # cs) \<longleftrightarrow> ind_key c = read_ptr s ino (ind_p c) \<and> verify_chain s ino cs"
  by (simp_all add: verify_chain_def)

lemma verify_last: "verify_chain s ino chain \<Longrightarrow> chain \<noteq> [] \<Longrightarrow> add_chain s ino (ind_p (last chain)) = last chain"
  by (cases chain rule: rev_cases) (simp_all add: add_chain_def)

lemma leads_link:
  assumes "leads A ino o0 pre chain" "link = add_chain s ino (In_block b off)" "b = ptr_block s (ind_key (last chain))"
    and "ks_arch s = A"
  shows "ks_arch t = A \<Longrightarrow> verify_chain t ino chain \<Longrightarrow>
      links t ino (In_inode o0) (pre @ off # offs) = chain @ links t ino (ind_p link) offs"
    and "ind_key link \<noteq> 0 \<Longrightarrow> leads A ino o0 (pre @ [off]) (chain @ [link])"
proof -
  have ne: "chain \<noteq> []" "ind_key (last chain) \<noteq> 0" using assms(1) by (auto simp: leads_def)
  show L: "links t ino (In_inode o0) (pre @ off # offs) = chain @ links t ino (ind_p link) offs"
    if "ks_arch t = A" "verify_chain t ino chain" for t offs
  proof -
    have "links t ino (In_inode o0) (pre @ off # offs) = butlast chain @ links t ino (ind_p (last chain)) (off # offs)"
      using assms(1) that by (simp add: leads_def)
    moreover have "add_chain t ino (ind_p (last chain)) = last chain" using verify_last that(2) ne(1) .
    moreover from this have "read_ptr t ino (ind_p (last chain)) = ind_key (last chain)" by (metis add_chain_sel(2))
    moreover have "ptr_block t = ptr_block s" using that(1) assms(4) by (simp add: fun_eq_iff ptr_block_def)
    ultimately show ?thesis using ne assms(2,3) by simp
  qed
  show "leads A ino o0 (pre @ [off]) (chain @ [link])" if "ind_key link \<noteq> 0"
    using assms(1) that L by (simp add: leads_def)
qed

lemma branch_loop_snapshot:
  assumes "\<And>i s. ks_arch (other i s) = ks_arch s"
    and "leads (ks_arch s) ino o0 pre chain" "verify_chain s ino chain"
    and "branch_loop other ino offs chain s = ((chain', whole, 0), s')"
  shows "chain' = links s' ino (In_inode o0) (pre @ offs)" "whole \<longleftrightarrow> ind_key (last chain') \<noteq> 0"
    "verify_chain s' ino chain'" "ks_arch s' = ks_arch s"
proof -
  have "chain' = links s' ino (In_inode o0) (pre @ offs) \<and> (whole \<longleftrightarrow> ind_key (last chain') \<noteq> 0) \<and>
     verify_chain s' ino chain' \<and> ks_arch s' = ks_arch s"
    using assms(2-)
  proof (induction offs arbitrary: pre chain s)
    case Nil
    then have "links s ino (In_inode o0) pre = butlast chain @ [add_chain s ino (ind_p (last chain))]"
      by (simp add: leads_def) (metis append_Nil2 links.simps(1))
    then show ?case using Nil by (auto simp: leads_def verify_last)
  next
    case (Cons off offs)
    define s1 b where "s1 = other (length chain) s" and "b = ptr_block s (ind_key (last chain))"
    define link where "link = add_chain s1 ino (In_block b off)"
    have b: "b = ptr_block s1 (ind_key (last chain))" "ks_arch s1 = ks_arch s" by (simp_all add: b_def s1_def ptr_block_def assms(1))
    note L = leads_link [OF Cons.prems(1) link_def b]
    from Cons.prems(3) have "verify_chain s1 ino chain"
      by (auto simp: Let_def s1_def [symmetric] b_def [symmetric] split: option.splits if_splits)
    then have v: "verify_chain s1 ino (chain @ [link])" by (simp add: link_def)
    show ?case
    proof (cases "ind_key link = 0")
      case True
      then have "chain' = chain @ [link]" "\<not> whole" "s' = s1" using Cons.prems(3)
        by (auto simp: Let_def s1_def [symmetric] b_def [symmetric] link_def [symmetric] split: option.splits if_splits)
      moreover have "links s1 ino (ind_p link) offs = [link]" using True by (cases offs) (simp_all add: link_def)
      ultimately show ?thesis using L(1) [OF b(2) \<open>verify_chain s1 ino chain\<close>] True v b(2) by simp
    next
      case False
      then have "branch_loop other ino offs (chain @ [link]) s1 = ((chain', whole, 0), s')" using Cons.prems(3)
        by (auto simp: Let_def s1_def [symmetric] b_def [symmetric] link_def [symmetric] split: option.splits if_splits)
      from Cons.IH [OF _ v this, of "pre @ [off]"] L(2) [OF False] b(2) show ?thesis by auto
    qed
  qed
  then show "chain' = links s' ino (In_inode o0) (pre @ offs)" "whole \<longleftrightarrow> ind_key (last chain') \<noteq> 0"
    "verify_chain s' ino chain'" "ks_arch s' = ks_arch s" by auto
qed

lemma get_branch_snapshot:
  assumes "\<And>i s. ks_arch (other i s) = ks_arch s" "ext2_get_branch other ino os s = ((chain, whole, 0), s')"
  shows "chain = path_links s' ino os" "whole \<longleftrightarrow> ind_key (last chain) \<noteq> 0" "verify_chain s' ino chain" "ks_arch s' = ks_arch s"
proof -
  define link where "link = add_chain s ino (In_inode (hd os))"
  have "chain = path_links s' ino os \<and> (whole \<longleftrightarrow> ind_key (last chain) \<noteq> 0) \<and> verify_chain s' ino chain \<and> ks_arch s' = ks_arch s"
  proof (cases "ind_key link = 0")
    case True
    then have "chain = [link]" "\<not> whole" "s' = s" using assms(2) by (auto simp: ext2_get_branch_def Let_def link_def [symmetric])
    moreover have "links s ino (In_inode (hd os)) (tl os) = [link]" using True by (cases "tl os") (simp_all add: link_def)
    ultimately show ?thesis using True by (simp add: path_links_def link_def)
  next
    case False
    have "leads (ks_arch s) ino (hd os) [] [link]" using False by (simp add: leads_def link_def)
    moreover have "verify_chain s ino [link]" by (simp add: link_def)
    moreover have "branch_loop other ino (tl os) [link] s = ((chain, whole, 0), s')"
      using False assms(2) by (simp add: ext2_get_branch_def Let_def link_def [symmetric])
    ultimately show ?thesis using branch_loop_snapshot [where other = other and ?o0.0 = "hd os" and pre = "[]" and chain = "[link]", OF assms(1)]
      by (auto simp: path_links_def)
  qed
  then show "chain = path_links s' ino os" "whole \<longleftrightarrow> ind_key (last chain) \<noteq> 0" "verify_chain s' ino chain" "ks_arch s' = ks_arch s"
    by auto
qed

declare read_ptr.simps [simp del]

text \<open>Every indirect block on a path can be read.\<close>

fun readable :: "kstate \<Rightarrow> nat \<Rightarrow> ptr_loc \<Rightarrow> nat list \<Rightarrow> bool" where
  "readable s ino p [] = True"
| "readable s ino p (off # offs) \<longleftrightarrow> read_ptr s ino p = 0 \<or>
     ks_dev s (ptr_block s (read_ptr s ino p)) \<noteq> None \<and> readable s ino (In_block (ptr_block s (read_ptr s ino p)) off) offs"

definition path_readable :: "kstate \<Rightarrow> nat \<Rightarrow> nat list \<Rightarrow> bool" where
  "path_readable s ino os \<longleftrightarrow> readable s ino (In_inode (hd os)) (tl os)"

lemma branch_loop_alone:
  assumes "\<And>i. other i s = s" "verify_chain s ino chain" "chain \<noteq> []" "ind_key (last chain) \<noteq> 0"
  shows "if readable s ino (ind_p (last chain)) offs
     then let ls = links s ino (ind_p (last chain)) offs in
       branch_loop other ino offs chain s = ((butlast chain @ ls, ind_key (last ls) \<noteq> 0, 0), s)
     else \<exists>ls. branch_loop other ino offs chain s = ((ls, False, - EIO), s)"
  using assms(2-)
proof (induction offs arbitrary: chain)
  case Nil
  then show ?case by (simp add: verify_last)
next
  case (Cons off offs)
  define link where "link = add_chain s ino (In_block (ptr_block s (ind_key (last chain))) off)"
  have a: "read_ptr s ino (ind_p (last chain)) = ind_key (last chain)" "add_chain s ino (ind_p (last chain)) = last chain"
    using verify_last [OF Cons.prems(1,2)] by (metis add_chain_sel(2))+
  show ?case
  proof (cases "ind_key link = 0")
    case True
    then have "links s ino (ind_p link) offs = [link]" "readable s ino (ind_p link) offs"
      by (cases offs, simp_all add: link_def) (cases offs, simp_all add: link_def)
    then show ?thesis using True Cons.prems
      by (auto simp: Let_def assms(1) link_def a split: option.splits)
  next
    case False
    then show ?thesis using Cons.IH [of "chain @ [link]"] Cons.prems
      by (auto simp: Let_def assms(1) link_def a split: option.splits if_splits)
  qed
qed

lemma get_branch_alone:
  assumes "\<And>i. other i s = s"
  shows "path_readable s ino os \<Longrightarrow>
      ext2_get_branch other ino os s = ((path_links s ino os, ind_key (last (path_links s ino os)) \<noteq> 0, 0), s)"
    and "\<not> path_readable s ino os \<Longrightarrow> \<exists>chain. ext2_get_branch other ino os s = ((chain, False, - EIO), s)"
proof -
  define link where "link = add_chain s ino (In_inode (hd os))"
  have z: "ind_key link = 0 \<Longrightarrow> links s ino (In_inode (hd os)) offs = [link] \<and> readable s ino (In_inode (hd os)) offs" for offs
    by (cases offs) (simp_all add: link_def)
  have n: "ind_key link \<noteq> 0 \<Longrightarrow> if path_readable s ino os
      then branch_loop other ino (tl os) [link] s = ((path_links s ino os, ind_key (last (path_links s ino os)) \<noteq> 0, 0), s)
      else \<exists>ls. branch_loop other ino (tl os) [link] s = ((ls, False, - EIO), s)"
    using branch_loop_alone [of other s ino "[link]" "tl os", OF assms]
    by (simp add: path_links_def path_readable_def Let_def link_def split: if_splits)
  show "ext2_get_branch other ino os s = ((path_links s ino os, ind_key (last (path_links s ino os)) \<noteq> 0, 0), s)"
    if "path_readable s ino os"
    using n z that by (simp add: ext2_get_branch_def path_links_def Let_def flip: link_def)
  show "\<exists>chain. ext2_get_branch other ino os s = ((chain, False, - EIO), s)" if "\<not> path_readable s ino os"
    using n z that by (auto simp: ext2_get_branch_def path_readable_def Let_def simp flip: link_def)
qed

text \<open>The next pointers of the same indirect block, or of the inode.\<close>

lemma links_step:
  assumes "ind_key (last (links s ino p offs)) \<noteq> 0" "offs \<noteq> []"
  shows "ind_p (last (links s ino p (butlast offs @ [last offs + k]))) = ptr_plus (ind_p (last (links s ino p offs))) k"
  using assms
proof (induction offs arbitrary: p)
  case (Cons off offs)
  then show ?case by (cases "offs = []") auto
qed simp

lemma links_last_key: "ind_key (last (links s ino p offs)) = read_ptr s ino (ind_p (last (links s ino p offs)))"
  by (induction s ino p offs rule: links.induct) auto

lemma path_links_step:
  assumes "ind_key (last (path_links s ino os)) \<noteq> 0" "os \<noteq> []"
  shows "ind_p (last (path_links s ino (butlast os @ [last os + k]))) = ptr_plus (ind_p (last (path_links s ino os))) k"
proof (cases "tl os = []")
  case True
  then have "os = [hd os]" using assms(2) by (cases os) auto
  then show ?thesis by (metis (no_types, lifting) add_chain_sel(1) append_Nil butlast.simps(2) last.simps
    links.simps(1) list.sel(1,3) path_links_def ptr_plus.simps(1))
next
  case False
  then have "butlast os @ [last os + k] = hd os # butlast (tl os) @ [last (tl os) + k]" using assms(2) by (cases os) auto
  then show ?thesis using links_step [OF _ False, of s ino "In_inode (hd os)" k] assms(1) by (simp add: path_links_def)
qed

lemma file_ptr_run:
  assumes "addr_ok s" "0 \<le> b" "b < max_file_blocks s" "ext2_block_to_path s b = (os, bd)" "int k \<le> bd"
    and "file_ptr s ino b \<noteq> 0"
  shows "file_ptr s ino (b + int k) = read_ptr s ino (ptr_plus (ind_p (last (path_links s ino os))) k)"
proof -
  have "os \<noteq> []" using path_valid [OF assms(1-4)] by (auto simp: path_ok_def)
  then show ?thesis
    using path_boundary [OF assms(1-5)] path_links_step [of s ino os k] assms(4,6)
    by (simp add: file_ptr_def path_links_def links_last_key [of _ _ _ "tl _"])
qed

lemma map_more_alone:
  assumes "\<And>i. other i s = s" "verify_chain s ino chain"
    and "\<forall>k. 0 < k \<longrightarrow> k < count \<longrightarrow> P k" "1 \<le> count" "int count \<le> boundary + 1"
    and "\<And>k. int k \<le> boundary \<Longrightarrow> P k \<longleftrightarrow> le_to_cpu (ks_arch s) (read_ptr s ino (ptr_plus (ind_p (last chain)) k)) =
                le_to_cpu (ks_arch s) (ind_key (last chain)) + of_nat k"
  shows "\<exists>c. map_more n other ino chain boundary count s = ((c, False), s) \<and> count \<le> c \<and> c \<le> count + n \<and>
    int c \<le> boundary + 1 \<and> (\<forall>k. 0 < k \<longrightarrow> k < c \<longrightarrow> P k) \<and> (c < count + n \<longrightarrow> int c \<le> boundary \<longrightarrow> \<not> P c)"
  using assms(3-5)
proof (induction n arbitrary: count)
  case (Suc n)
  show ?case
  proof (cases "int count \<le> boundary \<and> P count")
    case True
    then have "\<exists>c. map_more n other ino chain boundary (count + 1) s = ((c, False), s) \<and> count + 1 \<le> c \<and> c \<le> (count + 1) + n \<and>
      int c \<le> boundary + 1 \<and> (\<forall>k. 0 < k \<longrightarrow> k < c \<longrightarrow> P k) \<and> (c < count + 1 + n \<longrightarrow> int c \<le> boundary \<longrightarrow> \<not> P c)"
      using Suc.prems by (intro Suc.IH) (auto simp: less_Suc_eq)
    then show ?thesis using True assms(6) [of count] by (auto simp: Let_def assms(1,2))
  next
    case False
    then show ?thesis using Suc.prems assms(6) [of count] by (auto simp: Let_def assms(1,2))
  qed
qed auto

text \<open>No other thread runs in between.\<close>

definition alone :: "get_env \<Rightarrow> bool" where
  "alone e \<longleftrightarrow> (\<forall>i s. ge_lookup e i s = s \<and> ge_mapping e i s = s \<and> ge_wait e s = s \<and> ge_relookup e i s = s)"

lemma verify_links: "verify_chain s ino (links s ino p offs)"
  by (induction s ino p offs rule: links.induct) simp_all

lemma map_more_file:
  assumes "addr_ok s" "0 \<le> b" "b < max_file_blocks s" "ext2_block_to_path s b = (os, bd)" "\<And>i. other i s = s"
    and "file_ptr s ino b \<noteq> 0"
  defines "P \<equiv> \<lambda>k. le_to_cpu (ks_arch s) (file_ptr s ino (b + int k)) = le_to_cpu (ks_arch s) (file_ptr s ino b) + of_nat k"
  shows "\<exists>c. map_more n other ino (path_links s ino os) bd 1 s = ((c, False), s) \<and> 1 \<le> c \<and> c \<le> 1 + n \<and> (\<forall>k. k < c \<longrightarrow> P k)"
proof -
  have "verify_chain s ino (path_links s ino os)"
    by (simp add: path_links_def verify_links)
  moreover have "0 \<le> bd" using path_next(1) [OF assms(1-4)] .
  ultimately have "\<exists>c. map_more n other ino (path_links s ino os) bd 1 s = ((c, False), s) \<and> 1 \<le> c \<and> c \<le> 1 + n \<and>
    int c \<le> bd + 1 \<and> (\<forall>k. 0 < k \<longrightarrow> k < c \<longrightarrow> P k) \<and> (c < 1 + n \<longrightarrow> int c \<le> bd \<longrightarrow> \<not> P c)"
    using file_ptr_run [OF assms(1-4) _ assms(6)] assms(4)
    by (intro map_more_alone) (auto simp: assms(5) P_def file_ptr_def)
  moreover have "P 0" by (simp add: P_def)
  ultimately show ?thesis by (metis gr0I)
qed

lemma get_blocks_mapped:
  assumes "addr_ok s" "alone e" "0 \<le> b" "b < max_file_blocks s" "path_readable s ino (fst (ext2_block_to_path s b))"
    and "file_ptr s ino b \<noteq> 0"
  shows "\<exists>c bh'. ext2_get_blocks e ino b maxblocks bh create s = Some ((int c, bh'), s) \<and> 1 \<le> c \<and> c \<le> max 1 maxblocks \<and>
    bh_block bh' = Some (ptr_block s (file_ptr s ino b)) \<and> \<not> bh_new bh' \<and>
    (\<forall>k. k < c \<longrightarrow> le_to_cpu (ks_arch s) (file_ptr s ino (b + int k)) = le_to_cpu (ks_arch s) (file_ptr s ino b) + of_nat k)"
proof -
  obtain os bd where p: "ext2_block_to_path s b = (os, bd)" by (cases "ext2_block_to_path s b")
  then have "os \<noteq> []" using path_valid [OF assms(1,3,4)] by (auto simp: path_ok_def)
  moreover obtain c where "map_more (maxblocks - 1) (ge_mapping e) ino (path_links s ino os) bd 1 s = ((c, False), s)"
    "1 \<le> c" "c \<le> 1 + (maxblocks - 1)"
    "\<forall>k. k < c \<longrightarrow> le_to_cpu (ks_arch s) (file_ptr s ino (b + int k)) = le_to_cpu (ks_arch s) (file_ptr s ino b) + of_nat k"
    using map_more_file [OF assms(1,3,4) p, of "ge_mapping e" ino "maxblocks - 1"] assms(2,6) unfolding alone_def by blast
  moreover have "ind_key (last (path_links s ino os)) = file_ptr s ino b" by (simp add: file_ptr_def p)
  ultimately show ?thesis
    using get_branch_alone(1) [of "ge_lookup e" s ino os] assms(2,5,6) p
    by (auto simp: ext2_get_blocks_def alone_def got_it_def Let_def)
qed

lemma get_blocks_absent:
  assumes "addr_ok s" "alone e"
  shows "b < 0 \<or> max_file_blocks s \<le> b \<or> \<not> path_readable s ino (fst (ext2_block_to_path s b)) \<Longrightarrow>
      ext2_get_blocks e ino b maxblocks bh create s = Some ((- EIO, bh), s)"
    and "0 \<le> b \<Longrightarrow> b < max_file_blocks s \<Longrightarrow> path_readable s ino (fst (ext2_block_to_path s b)) \<Longrightarrow> file_ptr s ino b = 0 \<Longrightarrow>
      ext2_get_blocks e ino b maxblocks bh False s = Some ((0, bh), s)"
proof -
  obtain os bd where p: "ext2_block_to_path s b = (os, bd)" by (cases "ext2_block_to_path s b")
  have err: "os = [] \<longleftrightarrow> b < 0 \<or> max_file_blocks s \<le> b" using path_error [OF assms(1), of b] p by simp
  have a: "\<And>i. ge_lookup e i s = s" using assms(2) by (simp add: alone_def)
  show "ext2_get_blocks e ino b maxblocks bh create s = Some ((- EIO, bh), s)"
    if "b < 0 \<or> max_file_blocks s \<le> b \<or> \<not> path_readable s ino (fst (ext2_block_to_path s b))"
    using err get_branch_alone(2) [of "ge_lookup e" s ino os] a p that
    by (auto simp: ext2_get_blocks_def Let_def)
  show "ext2_get_blocks e ino b maxblocks bh False s = Some ((0, bh), s)"
    if "0 \<le> b" "b < max_file_blocks s" "path_readable s ino (fst (ext2_block_to_path s b))" "file_ptr s ino b = 0"
    using err get_branch_alone(1) [of "ge_lookup e" s ino os] a p that
    by (auto simp: ext2_get_blocks_def Let_def file_ptr_def)
qed

end
