(* ===== verification/Get_Blocks.thy ===== *)
theory Get_Blocks
  imports Blockmap
begin

text \<open>
  What mapping a block of a file does: allocating the blocks of a branch, the tree of a file as seen
  through its pointers, the splice of a branch into the tree, and the properties of \<open>ext2_get_blocks\<close>.
\<close>

section \<open>Allocating all blocks of a branch, or none\<close>

abbreviation alloc_inv :: "kstate \<Rightarrow> bool" where
  "alloc_inv s \<equiv> balloc_inv s \<and> 9 \<le> s_blocksize_bits (ks_sb s)"

text \<open>Changes that the allocator does not see.\<close>

lemma space_same:
  assumes "ks_sbi s' = ks_sbi s" "ks_es s' = ks_es s" "ks_gdesc s' = ks_gdesc s" "\<And>b. b \<in> bitmap_blocks s \<Longrightarrow> ks_dev s' b = ks_dev s b"
  shows "free_space s' = free_space s" "balloc_inv s' = balloc_inv s" "bitmap_blocks s' = bitmap_blocks s"
proof -
  have lk: "lookup_group_desc s' g = lookup_group_desc s g" for g by (rule lookup_desc_geometry_cong) (simp_all add: assms)
  show "bitmap_blocks s' = bitmap_blocks s" by (simp add: bitmap_blocks_def lk)
  have dev: "lookup_group_desc s g = Some d \<Longrightarrow> ks_dev s' (bg_block_bitmap d) = ks_dev s (bg_block_bitmap d)" for g d
    by (rule assms(4)) (auto simp: bitmap_blocks_def)
  have first: "ext2_group_first_block_no s' g = ext2_group_first_block_no s g" for g
    by (simp add: ext2_group_first_block_no_def assms)
  have "group_bitmap s' g = group_bitmap s g" for g
    using dev by (auto simp: group_bitmap_def lk split: option.splits bind_splits)
  then show "free_space s' = free_space s" by (simp add: free_space_def first assms)
  have "group_ok s' g = group_ok s g" for g
    by (cases "lookup_group_desc s g") (simp_all add: group_ok_def lk first reserved_block_def assms(1,2) dev)
  then show "balloc_inv s' = balloc_inv s" by (simp add: balloc_inv_def first lk assms desc_geometry_def)
qed

lemma upd_inode_space [simp]:
  "free_space (upd_inode ino f s) = free_space s" "balloc_inv (upd_inode ino f s) = balloc_inv s"
  by (rule space_same; simp)+

lemma fs_frame_same:
  assumes "ks_sbi s' = ks_sbi s" "ks_es s' = ks_es s" "ks_gdesc s' = ks_gdesc s"
  shows "desc_frame s s'"
  using lookup_desc_geometry_cong [of s' s] assms by (simp add: desc_frame_def same_geometry_def desc_geometry_def)

lemma fs_frame_upd_inode: "(\<And>ei. inode_core (f ei) = inode_core ei) \<Longrightarrow> fs_frame s (upd_inode ino f s)"
  by (simp add: fs_frame_def data_frame_upd_inode fs_frame_same)

lemma free_each_eq: "free_each ino bs s = ba.dealloc_all ino bs s"
  by (induction bs arbitrary: s) (simp_all split: option.splits)

text \<open>
  The blocks of a new branch: single indirect blocks, then a run of data blocks.
\<close>

definition branch_blocks :: "nat list \<Rightarrow> nat \<Rightarrow> nat set" where
  "branch_blocks new num = set (butlast new) \<union> {last new..<last new + num}"

definition new_branch :: "kstate \<Rightarrow> nat \<Rightarrow> nat \<Rightarrow> nat list \<Rightarrow> nat \<Rightarrow> kstate \<Rightarrow> bool" where
  "new_branch s ind blks new num s' \<longleftrightarrow>
     length new = ind + 1 \<and> distinct (butlast new) \<and> set (butlast new) \<inter> {last new..<last new + num} = {} \<and>
     1 \<le> num \<and> num \<le> blks \<and> branch_blocks new num \<subseteq> free_space s \<and> free_space s' = free_space s - branch_blocks new num"

lemma alloc_blocks_loop_ok:
  assumes "alloc_inv s" "alloc_inv s0" "fs_frame s0 s" "ino \<noteq> 0" "1 \<le> blks"
    and "length nbs \<le> ind" "ind - length nbs < n" "target = blks + (ind - length nbs)"
    and "distinct nbs" "set nbs \<subseteq> free_space s0" "free_space s = free_space s0 - set nbs"
  shows "\<exists>new num err s'. alloc_blocks_loop n e ino goal ind target nbs s = Some ((new, num, err), s') \<and> alloc_inv s' \<and>
    fs_frame s0 s' \<and> (if err = 0 then new_branch s0 ind blks new num s'
      else free_space s' = free_space s0 \<and> err \<in> {be_quota e, - ENOSPC})"
  using assms
proof (induction n arbitrary: s target nbs)
  case (Suc n)
  have inv: "alloc_inv s" and fr: "fs_frame s0 s" using Suc.prems by auto
  obtain b c err s1 where a: "ext2_new_blocks e ino goal target s = Some ((b, c, err), s1)" "alloc_inv s1" "fs_frame s s1"
    "if err = 0 then 1 \<le> c \<and> c \<le> target \<and> {b..<b + c} \<subseteq> free_space s \<and> free_space s1 = free_space s - {b..<b + c}
     else free_space s1 = free_space s \<and> err \<in> {be_quota e, - ENOSPC}"
    using ba.alloc_law [OF inv Suc.prems(4), of target e goal] Suc.prems(5,8) by (metis trans_le_add1)
  have fr1: "fs_frame s0 s1" by (rule ba.frame_trans [OF fr a(3)])
  show ?case
  proof (cases "err = 0")
    case False
    have "freeable s1 (set nbs)"
      using ba.may_free_frame [OF fr1 ba.free_may_free] Suc.prems by blast
    then obtain s2 where s2: "free_each ino nbs s1 = Some s2" "alloc_inv s2" "fs_frame s1 s2" "free_space s2 = free_space s1 \<union> set nbs"
      using ba.dealloc_all_ok [OF a(2), of nbs ino] unfolding free_each_eq by blast
    let ?s' = "if nbs \<noteq> [] then upd_inode ino mark_inode_dirty s2 else s2"
    have "fs_frame s0 s2" by (rule ba.frame_trans [OF fr1 s2(3)])
    then have "fs_frame s0 ?s'" using ba.frame_trans [OF _ fs_frame_upd_inode] by auto
    moreover have "free_space s2 = free_space s0" using False a(4) s2(4) Suc.prems by auto
    ultimately show ?thesis using a(1,4) False s2(1,2) by simp
  next
    case True
    define k where "k = min c (ind - length nbs)"
    define nb where "nb = nbs @ [b..<b + k]"
    have c: "1 \<le> c" "c \<le> target" "{b..<b + c} \<subseteq> free_space s" "free_space s1 = free_space s - {b..<b + c}" using True a(4) by auto
    have sub: "{b..<b + k} \<subseteq> {b..<b + c}" by (auto simp: k_def)
    have disj0: "set nbs \<inter> {b..<b + c} = {}" using c(3) Suc.prems(11) by blast
    then have disj: "set nbs \<inter> {b..<b + k} = {}" using sub by blast
    have nb: "distinct nb" "set nb = set nbs \<union> {b..<b + k}" "length nb = length nbs + k"
      using Suc.prems(9) disj by (auto simp: nb_def)
    have eq: "alloc_blocks_loop (Suc n) e ino goal ind target nbs s = (if c - k > 0 then Some ((nb @ [b + k], c - k, 0), s1)
        else alloc_blocks_loop n e ino goal ind (target - c) nb s1)"
      unfolding alloc_blocks_loop.simps a(1) using True by (simp only: k_def nb_def Let_def option.case prod.case if_False refl not_True_eq_False)
    show ?thesis
    proof (cases "c - k > 0")
      case more: True
      then have "k = ind - length nbs" by (auto simp: k_def)
      have kc: "k + (c - k) = c" "{b..<b + c} = {b..<b + k} \<union> {b + k..<b + c}" "{b..<b + k} \<inter> {b + k..<b + c} = {}"
        using more ivl_disj_un_two(3) [of b "b + k" "b + c"] by auto
      have bb: "branch_blocks (nb @ [b + k]) (c - k) = set nbs \<union> {b..<b + c}"
        using kc by (simp add: branch_blocks_def nb(2) add.assoc Un_assoc)
      have "set nb \<inter> {b + k..<b + c} = {}" using nb(2) disj0 kc(2,3) by blast
      moreover have "set nbs \<union> {b..<b + c} \<subseteq> free_space s0" "free_space s1 = free_space s0 - (set nbs \<union> {b..<b + c})"
        using c(3,4) Suc.prems(10,11) by blast+
      moreover have "1 \<le> c - k" "c - k \<le> blks" "length nb = ind"
        using more c(2) Suc.prems(6,8) \<open>k = ind - length nbs\<close> nb(3) by auto
      ultimately have "new_branch s0 ind blks (nb @ [b + k]) (c - k) s1"
        using nb(1) kc(1) unfolding new_branch_def bb by (simp add: add.assoc)
      then show ?thesis using a(2) fr1 more unfolding eq by simp
    next
      case False
      then have ck: "c = k" "c \<le> ind - length nbs" by (auto simp: k_def)
      have "\<exists>new num err s'. alloc_blocks_loop n e ino goal ind (target - c) nb s1 = Some ((new, num, err), s') \<and> alloc_inv s' \<and>
        fs_frame s0 s' \<and> (if err = 0 then new_branch s0 ind blks new num s'
          else free_space s' = free_space s0 \<and> err \<in> {be_quota e, - ENOSPC})"
        using Suc.prems nb ck c sub a(2) fr1 by (intro Suc.IH) auto
      then show ?thesis using False unfolding eq by simp
    qed
  qed
qed simp

lemma alloc_blocks_ok:
  assumes "alloc_inv s" "ino \<noteq> 0" "1 \<le> blks"
  shows "\<exists>new num err s'. ext2_alloc_blocks e ino goal ind blks s = Some ((new, num, err), s') \<and> alloc_inv s' \<and>
    fs_frame s s' \<and> (if err = 0 then new_branch s ind blks new num s'
      else free_space s' = free_space s \<and> err \<in> {be_quota e, - ENOSPC})"
  unfolding ext2_alloc_blocks_def using assms ba.frame_refl by (intro alloc_blocks_loop_ok) auto

section \<open>The tree of a file\<close>

text \<open>The pointer a path leads to, zero when it ends in a hole.\<close>

definition path_ptr :: "kstate \<Rightarrow> nat \<Rightarrow> nat list \<Rightarrow> u32" where
  "path_ptr s ino os = ind_key (last (path_links s ino os))"

lemma path_ptr_single [simp]: "path_ptr s ino [i] = read_ptr s ino (In_inode i)"
  by (simp add: path_ptr_def path_links_def)

lemma links_snoc:
  "ind_key (last (links s ino p (offs @ [i]))) =
    (let k = ind_key (last (links s ino p offs)) in if k = 0 then 0 else read_ptr s ino (In_block (ptr_block s k) i))"
proof (induction offs arbitrary: p)
  case (Cons off offs)
  then show ?case by (cases "offs") (auto simp: Let_def)
qed (simp add: Let_def)

lemma path_ptr_snoc:
  "os \<noteq> [] \<Longrightarrow> path_ptr s ino (os @ [i]) =
    (if path_ptr s ino os = 0 then 0 else read_ptr s ino (In_block (ptr_block s (path_ptr s ino os)) i))"
  using links_snoc [of s ino "In_inode (hd os)" "tl os" i] by (cases os) (simp_all add: path_ptr_def path_links_def Let_def)

text \<open>The positions of indirect blocks.\<close>

definition ind_pos :: "nat \<Rightarrow> nat list \<Rightarrow> bool" where
  "ind_pos n r \<longleftrightarrow> r \<noteq> [] \<and> hd r \<in> {12, 13, 14} \<and> length r \<le> hd r - 11 \<and> (\<forall>i\<in>set (tl r). i < n)"

lemma ind_pos_snoc: "r \<noteq> [] \<Longrightarrow> ind_pos n (r @ [i]) \<Longrightarrow> ind_pos n r"
  by (cases r) (auto simp: ind_pos_def)

lemma path_ok_ind_pos: "path_ok n (r @ [i]) \<Longrightarrow> r \<noteq> [] \<Longrightarrow> ind_pos n r"
  by (elim path_ok_elim) (auto simp: ind_pos_def append_eq_Cons_conv)

lemma path_ok_take: "path_ok n os \<Longrightarrow> 0 < k \<Longrightarrow> k < length os \<Longrightarrow> ind_pos n (take k os)"
  by (elim path_ok_elim) (auto simp: ind_pos_def take_Cons' split: if_splits)

text \<open>
  A sound tree: the inode is in memory, every indirect block can be read and is neither free nor a
  bitmap, and no block serves as indirect block in two places.
\<close>

definition ind_block :: "kstate \<Rightarrow> nat \<Rightarrow> nat list \<Rightarrow> nat" where
  "ind_block s ino r = ptr_block s (path_ptr s ino r)"

definition ind_set :: "kstate \<Rightarrow> nat \<Rightarrow> nat list set" where
  "ind_set s ino = {r. ind_pos (EXT2_ADDR_PER_BLOCK s) r \<and> path_ptr s ino r \<noteq> 0}"

definition tree_ok :: "kstate \<Rightarrow> nat \<Rightarrow> bool" where
  "tree_ok s ino \<longleftrightarrow> (\<exists>ei. ks_icache s ino = Some ei \<and> length (i_data ei) = 15) \<and>
     (\<forall>r\<in>ind_set s ino. ind_block s ino r \<notin> free_space s \<and> ind_block s ino r \<notin> bitmap_blocks s \<and> ks_dev s (ind_block s ino r) \<noteq> None) \<and>
     inj_on (ind_block s ino) (ind_set s ino)"

lemma path_ptr_cong:
  assumes "ks_arch s' = ks_arch s" "\<And>i. read_ptr s' ino (In_inode i) = read_ptr s ino (In_inode i)"
    and "\<And>r i. ind_pos n r \<Longrightarrow> path_ptr s ino r \<noteq> 0 \<Longrightarrow> read_ptr s' ino (In_block (ind_block s ino r) i) = read_ptr s ino (In_block (ind_block s ino r) i)"
  shows "r \<noteq> [] \<Longrightarrow> butlast r = [] \<or> ind_pos n (butlast r) \<Longrightarrow> path_ptr s' ino r = path_ptr s ino r"
proof (induction r rule: rev_induct)
  case (snoc i r)
  show ?case
  proof (cases "r = []")
    case False
    then have "ind_pos n r" using snoc.prems by simp
    moreover from this have "butlast r = [] \<or> ind_pos n (butlast r)"
      using False ind_pos_snoc [of "butlast r" n "last r"] by (cases r rule: rev_cases) auto
    then have "path_ptr s' ino r = path_ptr s ino r" using snoc.IH False by simp
    moreover have "ptr_block s' = ptr_block s" by (simp add: fun_eq_iff ptr_block_def assms(1))
    ultimately show ?thesis using False assms(3) [of r i] by (simp add: path_ptr_snoc ind_block_def)
  qed (simp add: assms(2))
qed simp

lemma path_ok_butlast: "path_ok n os \<Longrightarrow> os \<noteq> [] \<and> (butlast os = [] \<or> ind_pos n (butlast os))"
  using path_ok_ind_pos [of n "butlast os" "last os"] by (cases os rule: rev_cases, simp add: path_ok_def) force

lemma ind_pos_butlast: "ind_pos n r \<Longrightarrow> r \<noteq> [] \<and> (butlast r = [] \<or> ind_pos n (butlast r))"
  using ind_pos_snoc [of "butlast r" n "last r"] by (cases r rule: rev_cases) (auto simp: ind_pos_def)

text \<open>A path of a sound tree can be read.\<close>

lemma links_readable:
  assumes "\<And>k. k < length offs \<Longrightarrow> ind_key (last (links s ino p (take k offs))) \<noteq> 0 \<Longrightarrow>
    ks_dev s (ptr_block s (ind_key (last (links s ino p (take k offs))))) \<noteq> None"
  shows "readable s ino p offs"
  using assms
proof (induction offs arbitrary: p)
  case (Cons off offs)
  show ?case
  proof (cases "read_ptr s ino p = 0")
    case False
    have "ks_dev s (ptr_block s (read_ptr s ino p)) \<noteq> None" using Cons.prems [of 0] False by simp
    moreover have "readable s ino (In_block (ptr_block s (read_ptr s ino p)) off) offs"
      using Cons.prems [of "Suc _"] False by (intro Cons.IH) auto
    ultimately show ?thesis by simp
  qed simp
qed simp

lemma tree_ok_readable:
  assumes "tree_ok s ino" "path_ok (EXT2_ADDR_PER_BLOCK s) os"
  shows "path_readable s ino os"
  unfolding path_readable_def
proof (rule links_readable)
  fix k assume k: "k < length (tl os)" "ind_key (last (links s ino (In_inode (hd os)) (take k (tl os)))) \<noteq> 0"
  have "os \<noteq> []" using assms(2) by (auto simp: path_ok_def)
  then have t: "take (Suc k) os = hd os # take k (tl os)" by (cases os) auto
  then have "path_ptr s ino (take (Suc k) os) = ind_key (last (links s ino (In_inode (hd os)) (take k (tl os))))"
    by (simp add: path_ptr_def path_links_def)
  moreover have "ind_pos (EXT2_ADDR_PER_BLOCK s) (take (Suc k) os)" by (rule path_ok_take [OF assms(2)]) (use k in auto)
  ultimately have "ks_dev s (ind_block s ino (take (Suc k) os)) \<noteq> None"
    using assms(1) k(2) by (auto simp: tree_ok_def ind_set_def)
  then show "ks_dev s (ptr_block s (ind_key (last (links s ino (In_inode (hd os)) (take k (tl os)))))) \<noteq> None"
    by (simp add: ind_block_def t path_ptr_def path_links_def)
qed

section \<open>What a new branch holds\<close>

lemma le_to_cpu_0 [simp]: "le_to_cpu A (0 :: u32) = 0"
proof -
  have z: "le_bytes (0 :: u32) = replicate 4 0" by (simp add: le_bytes_def list_eq_iff_nth_eq)
  have "mem_order A (replicate 4 (0 :: u8)) = replicate 4 0" by (simp add: mem_order_def split: arch.split)
  moreover have "of_le_bytes (replicate 4 (0 :: u8)) = (0 :: u32)" by (simp add: eval_nat_numeral)
  ultimately show ?thesis by (simp add: le_to_cpu_def read_bytes_def z)
qed

lemma ptr_block_block_ptr [simp]: "b < 2 ^ 32 \<Longrightarrow> ptr_block s (block_ptr s b) = b"
  by (simp add: ptr_block_def block_ptr_def unsigned_of_nat take_bit_nat_eq_self)

lemma block_ptr_0: "0 < b \<Longrightarrow> b < 2 ^ 32 \<Longrightarrow> block_ptr s b \<noteq> 0"
proof
  assume b: "0 < b" "b < 2 ^ 32" "block_ptr s b = 0"
  then show False using ptr_block_block_ptr [OF b(2), of s] by (simp add: ptr_block_def)
qed

lemma load_zero [simp]: "load_word A (\<lambda>_. 0) a = (0 :: u32)"
proof -
  have "read_bytes (\<lambda>_. 0 :: u8) a 4 = replicate 4 0" by (simp add: list_eq_iff_nth_eq)
  moreover have "mem_order A (replicate 4 (0 :: u8)) = replicate 4 0" by (simp add: mem_order_def split: arch.split)
  moreover have "of_le_bytes (replicate 4 (0 :: u8)) = (0 :: u32)" by (simp add: eval_nat_numeral)
  ultimately show ?thesis by (simp add: load_word_def)
qed

lemma indirect_block_load:
  "load_word (ks_arch s) (indirect_block s off bs) (4 * i) =
     (if off \<le> i \<and> i < off + length bs then block_ptr s (bs ! (i - off)) else 0)"
proof (cases "off \<le> i \<and> i < off + length bs")
  case True
  then have "4 * i = 4 * off + 4 * (i - off)" "i - off < length (map (block_ptr s) bs)" by auto
  then show ?thesis using True load_word_store_words by (simp add: indirect_block_def)
next
  case False
  then have "load_word (ks_arch s) (indirect_block s off bs) (4 * i) = (load_word (ks_arch s) (\<lambda>_. 0) (4 * i) :: u32)"
    unfolding indirect_block_def by (intro load_store_words_disjoint) auto
  then show ?thesis using False by (simp only: load_zero if_False)
qed

lemma indirect_block_arch: "ks_arch s' = ks_arch s \<Longrightarrow> indirect_block s' off bs = indirect_block s off bs"
proof -
  assume "ks_arch s' = ks_arch s"
  then have "block_ptr s' = block_ptr s" "ks_arch s' = ks_arch s" by (simp_all add: fun_eq_iff block_ptr_def)
  then show ?thesis by (simp add: indirect_block_def)
qed

text \<open>The blocks a link of the branch points to.\<close>

definition branch_targets :: "nat list \<Rightarrow> nat \<Rightarrow> nat \<Rightarrow> nat list" where
  "branch_targets new num j = (if j + 2 = length new then [new ! (j + 1)..<new ! (j + 1) + num] else [new ! (j + 1)])"

lemma link_branch_keeps [simp]:
  "ks_arch (link_branch offs new num s) = ks_arch s" "ks_icache (link_branch offs new num s) = ks_icache s"
  "ks_sbi (link_branch offs new num s) = ks_sbi s" "ks_es (link_branch offs new num s) = ks_es s"
  "ks_gdesc (link_branch offs new num s) = ks_gdesc s" "ks_sb (link_branch offs new num s) = ks_sb s"
  "ks_gps (link_branch offs new num s) = ks_gps s" "ks_now (link_branch offs new num s) = ks_now s"
  by (induction offs arbitrary: new s) (simp_all add: Let_def put_block_def)

lemma link_branch_dev:
  assumes "length new = length offs + 1" "distinct (butlast new)"
  shows "(\<forall>b. b \<notin> set (butlast new) \<longrightarrow> ks_dev (link_branch offs new num s) b = ks_dev s b) \<and>
    (\<forall>j. j < length offs \<longrightarrow>
      ks_dev (link_branch offs new num s) (new ! j) = Some (indirect_block s (offs ! j) (branch_targets new num j)))"
  using assms
proof (induction offs arbitrary: new s)
  case (Cons off offs)
  obtain c d rest where new: "new = c # d # rest" using Cons.prems(1) by (cases new; cases "tl new") auto
  define s1 where "s1 = put_block c (indirect_block s off (if offs = [] then [d..<d + num] else [d])) s"
  define s2 where "s2 = s1\<lparr>ks_uptodate := (ks_uptodate s1)(c := True)\<rparr>"
  have eq: "link_branch (off # offs) new num s = link_branch offs (d # rest) num s2" by (simp add: new s1_def s2_def Let_def)
  have s2: "ks_dev s2 = (ks_dev s)(c \<mapsto> indirect_block s off (if offs = [] then [d..<d + num] else [d]))" "ks_arch s2 = ks_arch s"
    by (simp_all add: s2_def s1_def put_block_def)
  have d: "length (d # rest) = length offs + 1" "distinct (butlast (d # rest))" "c \<notin> set (butlast (d # rest))"
    using Cons.prems by (simp_all add: new)
  note IH = Cons.IH [OF d(1,2), of s2]
  have "ks_dev (link_branch (off # offs) new num s) (new ! j) = Some (indirect_block s ((off # offs) ! j) (branch_targets new num j))"
    if j: "j < length (off # offs)" for j
  proof (cases j)
    case 0
    have "branch_targets new num 0 = (if offs = [] then [d..<d + num] else [d])" using d(1) by (auto simp: branch_targets_def new)
    then show ?thesis unfolding eq using IH d(3) s2(1) 0 by (simp add: new)
  next
    case (Suc i)
    have "branch_targets new num j = branch_targets (d # rest) num i" by (simp add: branch_targets_def new Suc)
    then show ?thesis unfolding eq using IH j Suc indirect_block_arch [OF s2(2)] by (simp add: new)
  qed
  moreover have "ks_dev (link_branch (off # offs) new num s) b = ks_dev s b" if "b \<notin> set (butlast new)" for b
    unfolding eq using that IH s2(1) by (simp add: new)
  ultimately show ?case by blast
qed simp

section \<open>Writing pointers\<close>

lemma upd_inode_keeps_more [simp]:
  "ks_arch (upd_inode i f s) = ks_arch s" "ks_now (upd_inode i f s) = ks_now s" "ks_gps (upd_inode i f s) = ks_gps s"
  "ks_pages (upd_inode i f s) = ks_pages s" "ks_oom (upd_inode i f s) = ks_oom s" "ks_slab (upd_inode i f s) = ks_slab s"
  by (simp_all add: upd_inode_def put_inode_def split: option.splits)

text \<open>The place of a run of pointers can be written.\<close>

fun writable :: "kstate \<Rightarrow> nat \<Rightarrow> ptr_loc \<Rightarrow> nat \<Rightarrow> bool" where
  "writable s ino (In_inode i) n \<longleftrightarrow> (\<exists>ei. ks_icache s ino = Some ei \<and> i + n \<le> length (i_data ei))"
| "writable s ino (In_block b i) n \<longleftrightarrow> ks_dev s b \<noteq> None"

lemma read_write_ptr:
  assumes "writable s ino p 1"
  shows "read_ptr (write_ptr ino p v s) ino q = (if q = p then v else read_ptr s ino q)"
proof (cases p)
  case (In_inode i)
  then show ?thesis using assms by (cases q) (auto simp: read_ptr.simps split: option.splits)
next
  case (In_block b i)
  then obtain m where m: "ks_dev s b = Some m" using assms by auto
  have "load_word (ks_arch s) (store_word (ks_arch s) m (4 * i) v) (4 * j) = (if j = i then v else load_word (ks_arch s) m (4 * j))" for j
    by (cases "j = i") (auto simp: load_store_same intro!: load_store_disjoint)
  then show ?thesis using In_block m by (cases q) (auto simp: read_ptr.simps put_block_def split: option.splits)
qed

lemma writable_write_ptr: "writable s ino p 1 \<Longrightarrow> writable s ino q n \<Longrightarrow> writable (write_ptr ino p v s) ino q n"
  by (cases p; cases q) (auto simp: put_block_def split: option.splits)

lemma write_ptr_keeps [simp]:
  "ks_arch (write_ptr ino p v s) = ks_arch s" "ks_sbi (write_ptr ino p v s) = ks_sbi s" "ks_es (write_ptr ino p v s) = ks_es s"
  "ks_gdesc (write_ptr ino p v s) = ks_gdesc s" "ks_sb (write_ptr ino p v s) = ks_sb s"
  "ks_gps (write_ptr ino p v s) = ks_gps s" "ks_now (write_ptr ino p v s) = ks_now s"
  by (cases p; simp add: put_block_def upd_inode_def put_inode_def split: option.splits)+

lemma write_run_keeps [simp]:
  "ks_arch (write_run ino p b n s) = ks_arch s" "ks_sbi (write_run ino p b n s) = ks_sbi s" "ks_es (write_run ino p b n s) = ks_es s"
  "ks_gdesc (write_run ino p b n s) = ks_gdesc s" "ks_sb (write_run ino p b n s) = ks_sb s"
  "ks_gps (write_run ino p b n s) = ks_gps s" "ks_now (write_run ino p b n s) = ks_now s"
  by (induction n arbitrary: p b s) simp_all

lemma ptr_plus_add [simp]: "ptr_plus (ptr_plus p i) j = ptr_plus p (i + j)" "ptr_plus p 0 = p"
  by (cases p; simp)+

lemma ptr_plus_inj [simp]: "ptr_plus p i = ptr_plus p j \<longleftrightarrow> i = j"
  by (cases p) simp_all

lemma writable_plus: "writable s ino p (Suc n) \<Longrightarrow> writable s ino (ptr_plus p 1) n \<and> writable s ino p 1"
  by (cases p) auto

lemma read_write_run_other:
  "writable s ino p n \<Longrightarrow> (\<And>j. j < n \<Longrightarrow> q \<noteq> ptr_plus p j) \<Longrightarrow> read_ptr (write_run ino p b n s) ino q = read_ptr s ino q"
proof (induction n arbitrary: p b s)
  case (Suc n)
  note w = writable_plus [OF Suc.prems(1)]
  let ?s = "write_ptr ino p (block_ptr s b) s"
  have "read_ptr (write_run ino (ptr_plus p 1) (b + 1) n ?s) ino q = read_ptr ?s ino q"
    using Suc.prems(2) [of "Suc _"] writable_write_ptr w by (intro Suc.IH) auto
  then show ?case using Suc.prems(2) [of 0] w read_write_ptr [of s ino p "block_ptr s b" q] by simp
qed simp

lemma read_write_run:
  "writable s ino p n \<Longrightarrow> j < n \<Longrightarrow> read_ptr (write_run ino p b n s) ino (ptr_plus p j) = block_ptr s (b + j)"
proof (induction n arbitrary: p b s j)
  case (Suc n)
  note w = writable_plus [OF Suc.prems(1)]
  let ?s = "write_ptr ino p (block_ptr s b) s"
  have w1: "writable ?s ino (ptr_plus p 1) n" using writable_write_ptr w by blast
  have bp: "block_ptr ?s = block_ptr s" by (simp add: fun_eq_iff block_ptr_def)
  show ?case
  proof (cases j)
    case 0
    have "p \<noteq> ptr_plus (ptr_plus p 1) j" for j using ptr_plus_inj [of p 0 "Suc j"] by auto
    then have "read_ptr (write_run ino (ptr_plus p 1) (b + 1) n ?s) ino p = read_ptr ?s ino p"
      by (intro read_write_run_other [OF w1])
    then show ?thesis using 0 w read_write_ptr [of s ino p "block_ptr s b" p] by simp
  next
    case (Suc i)
    then show ?thesis using Suc.IH [OF w1, of i "b + 1"] Suc.prems(2) bp by simp
  qed
qed simp

section \<open>Splicing a branch into the tree\<close>

text \<open>
  The hole is at the first \<open>lv\<close> offsets of the path \<open>os\<close>. The branch adds an indirect block for each
  longer proper prefix of the path, and a run of data blocks at its end.
\<close>

definition added :: "nat list \<Rightarrow> nat \<Rightarrow> nat list \<Rightarrow> nat \<Rightarrow> nat list \<Rightarrow> nat option" where
  "added os lv new num r =
     (if lv \<le> length r \<and> length r < length os \<and> r = take (length r) os then Some (new ! (length r - lv))
      else if length r = length os \<and> butlast r = butlast os \<and> last os \<le> last r \<and> last r < last os + num
      then Some (last new + (last r - last os)) else None)"

definition hole_place :: "kstate \<Rightarrow> nat \<Rightarrow> nat list \<Rightarrow> nat \<Rightarrow> ptr_loc" where
  "hole_place s ino os lv =
     (if lv = 1 then In_inode (hd os) else In_block (ind_block s ino (take (lv - 1) os)) (os ! (lv - 1)))"

definition hole_at :: "kstate \<Rightarrow> nat \<Rightarrow> nat list \<Rightarrow> nat \<Rightarrow> bool" where
  "hole_at s ino os lv \<longleftrightarrow> 1 \<le> lv \<and> lv \<le> length os \<and> path_ptr s ino (take lv os) = 0 \<and>
     (1 < lv \<longrightarrow> path_ptr s ino (take (lv - 1) os) \<noteq> 0)"

text \<open>The state after the splice, seen through the pointers.\<close>

definition spliced :: "kstate \<Rightarrow> nat \<Rightarrow> nat list \<Rightarrow> nat \<Rightarrow> nat list \<Rightarrow> nat \<Rightarrow> kstate \<Rightarrow> bool" where
  "spliced s ino os lv new num s' \<longleftrightarrow> ks_arch s' = ks_arch s \<and>
     (let p = hole_place s ino os lv; cnt = (if lv = length os then num else 1) in
      (\<forall>j. j < cnt \<longrightarrow> read_ptr s' ino (ptr_plus p j) = block_ptr s (hd new + j)) \<and>
      (\<forall>j i. lv + j < length os \<longrightarrow> read_ptr s' ino (In_block (new ! j) i) =
         (let bs = branch_targets new num j; off = os ! (lv + j) in
          if off \<le> i \<and> i < off + length bs then block_ptr s (bs ! (i - off)) else 0)) \<and>
      (\<forall>i. (\<forall>j. j < cnt \<longrightarrow> In_inode i \<noteq> ptr_plus p j) \<longrightarrow> read_ptr s' ino (In_inode i) = read_ptr s ino (In_inode i)) \<and>
      (\<forall>r\<in>ind_set s ino. \<forall>i. (\<forall>j. j < cnt \<longrightarrow> In_block (ind_block s ino r) i \<noteq> ptr_plus p j) \<longrightarrow>
         read_ptr s' ino (In_block (ind_block s ino r) i) = read_ptr s ino (In_block (ind_block s ino r) i)))"

lemma splicedD:
  assumes "spliced s ino os lv new num s'"
  shows "ks_arch s' = ks_arch s"
    "j < (if lv = length os then num else 1) \<Longrightarrow> read_ptr s' ino (ptr_plus (hole_place s ino os lv) j) = block_ptr s (hd new + j)"
    "lv + j < length os \<Longrightarrow> read_ptr s' ino (In_block (new ! j) i) =
      (if os ! (lv + j) \<le> i \<and> i < os ! (lv + j) + length (branch_targets new num j)
       then block_ptr s (branch_targets new num j ! (i - os ! (lv + j))) else 0)"
    "(\<And>j. j < (if lv = length os then num else 1) \<Longrightarrow> In_inode i \<noteq> ptr_plus (hole_place s ino os lv) j) \<Longrightarrow>
      read_ptr s' ino (In_inode i) = read_ptr s ino (In_inode i)"
    "r \<in> ind_set s ino \<Longrightarrow>
      (\<And>j. j < (if lv = length os then num else 1) \<Longrightarrow> In_block (ind_block s ino r) i \<noteq> ptr_plus (hole_place s ino os lv) j) \<Longrightarrow>
      read_ptr s' ino (In_block (ind_block s ino r) i) = read_ptr s ino (In_block (ind_block s ino r) i)"
  using assms unfolding spliced_def Let_def by blast+

lemma hole_below:
  assumes "hole_at s ino os lv" "lv \<le> k" "k \<le> length os"
  shows "path_ptr s ino (take k os) = 0"
  using assms(2,3)
proof (induction k rule: dec_induct)
  case (step k)
  have "take (Suc k) os = take k os @ [os ! k]" "take k os \<noteq> []"
    using step assms(1) by (auto simp: take_Suc_conv_app_nth hole_at_def)
  then show ?case using step by (simp add: path_ptr_snoc)
qed (use assms(1) in \<open>simp add: hole_at_def\<close>)

lemma run_not_ind:
  assumes "path_ok n os" "last os + num \<le> (if length os = 1 then 12 else n)" "ind_pos n r" "length r = length os"
    and "butlast r = butlast os" "last r < last os + num"
  shows False
  using assms by (elim path_ok_elim) (auto simp: ind_pos_def length_Suc_conv split: if_splits)

lemma added_parent:
  assumes "added os lv new num (r @ [i]) = Some b" "added os lv new num r = None" "r \<noteq> []" "1 \<le> lv" "lv \<le> length os"
  shows "1 < lv \<and> r = take (lv - 1) os \<and>
    (if lv = length os then last os \<le> i \<and> i < last os + num \<and> b = last new + (i - last os) else i = os ! (lv - 1) \<and> b = new ! 0)"
proof -
  have c: "(lv \<le> Suc (length r) \<and> Suc (length r) < length os \<and> r @ [i] = take (Suc (length r)) os \<and> b = new ! (Suc (length r) - lv)) \<or>
     (Suc (length r) = length os \<and> r = butlast os \<and> last os \<le> i \<and> i < last os + num \<and> b = last new + (i - last os))"
    using assms(1) by (auto simp: added_def split: if_splits)
  have "r = take (length r) os"
    using c
  proof
    assume "lv \<le> Suc (length r) \<and> Suc (length r) < length os \<and> r @ [i] = take (Suc (length r)) os \<and> b = new ! (Suc (length r) - lv)"
    then have "take (length r) (r @ [i]) = take (length r) (take (Suc (length r)) os)" by simp
    then show ?thesis by (simp add: min_def)
  next
    assume "Suc (length r) = length os \<and> r = butlast os \<and> last os \<le> i \<and> i < last os + num \<and> b = last new + (i - last os)"
    then show ?thesis by (simp add: butlast_conv_take)
  qed
  moreover from this have "\<not> lv \<le> length r" using assms(2) c by (auto simp: added_def split: if_splits)
  moreover have "lv \<le> Suc (length r)" using c assms(5) by auto
  then have "length r = lv - 1" using \<open>\<not> lv \<le> length r\<close> by simp
  moreover from this have "1 < lv" using assms(3) by (cases r) auto
  ultimately have "length r = lv - 1" "1 < lv" "r = take (lv - 1) os" by simp_all
  moreover have "i = os ! (lv - 1)" if "r @ [i] = take (Suc (length r)) os" "Suc (length r) < length os"
    using that calculation(1) by (metis Suc_lessD nth_append_length nth_take lessI)
  ultimately show ?thesis using c by auto
qed

lemma spliced_inode:
  assumes sp: "spliced s ino os lv new num s'" and os: "path_ok n os" and hole: "hole_at s ino os lv"
    and new: "length new = length os - lv + 1"
  shows "path_ptr s' ino [i] = (case added os lv new num [i] of Some b \<Rightarrow> block_ptr s b | None \<Rightarrow> path_ptr s ino [i])"
proof (cases "lv = 1")
  case True
  have ne: "os \<noteq> []" using hole by (auto simp: hole_at_def)
  have p: "hole_place s ino os lv = In_inode (hd os)" using True by (simp add: hole_place_def)
  show ?thesis
  proof (cases "length os = 1")
    case one: True
    then obtain h where h: "os = [h]" by (auto simp: length_Suc_conv)
    obtain d where d: "new = [d]" using new one True by (auto simp: length_Suc_conv)
    have "read_ptr s' ino (In_inode i) = (if h \<le> i \<and> i < h + num then block_ptr s (d + (i - h)) else read_ptr s ino (In_inode i))"
    proof (cases "h \<le> i \<and> i < h + num")
      case True
      then have "i - h < num" by auto
      then show ?thesis using True splicedD(2) [OF sp, of "i - h"] p h d one \<open>lv = 1\<close> by simp
    next
      case False
      then show ?thesis using splicedD(4) [OF sp, of i] p h one \<open>lv = 1\<close> by auto
    qed
    then show ?thesis by (simp add: added_def h d True)
  next
    case False
    then have l: "1 < length os" using ne by (cases os) auto
    have "read_ptr s' ino (In_inode i) = (if i = hd os then block_ptr s (hd new) else read_ptr s ino (In_inode i))"
      using splicedD(2) [OF sp, of 0] splicedD(4) [OF sp, of i] p True l by auto
    moreover have "take 1 os = [hd os]" using ne by (cases os) auto
    moreover have "hd new = new ! 0" using new by (cases new) auto
    ultimately show ?thesis using l True by (auto simp: added_def)
  qed
next
  case False
  then have "added os lv new num [i] = None" using hole by (auto simp: added_def hole_at_def)
  then show ?thesis using splicedD(4) [OF sp, of i] False by (simp add: hole_place_def)
qed

lemma spliced_new:
  assumes sp: "spliced s ino os lv new num s'" and hole: "hole_at s ino os lv" and new: "length new = length os - lv + 1"
    and blk: "\<forall>b\<in>set (butlast new). 0 < b \<and> b < 2 ^ 32"
    and r: "lv \<le> length r" "length r < length os" "r = take (length r) os" and IH: "path_ptr s' ino r = block_ptr s (new ! (length r - lv))"
  shows "path_ptr s' ino (r @ [i]) = (case added os lv new num (r @ [i]) of Some b \<Rightarrow> block_ptr s b | None \<Rightarrow> path_ptr s ino (r @ [i]))"
proof -
  define j where "j = length r - lv"
  have j: "lv + j = length r" "lv + j < length os" "j + 1 < length new" using r new by (auto simp: j_def)
  have rne: "r \<noteq> []" using r(1) hole by (auto simp: hole_at_def)
  have "new ! j \<in> set (butlast new)" using j(3) by (metis One_nat_def add.commute length_butlast less_diff_conv nth_butlast nth_mem plus_1_eq_Suc)
  then have b: "block_ptr s (new ! j) \<noteq> 0" "ptr_block s' (block_ptr s (new ! j)) = new ! j"
    using blk block_ptr_0 [of "new ! j" s] ptr_block_block_ptr [of "new ! j" s] splicedD(1) [OF sp] by (auto simp: ptr_block_def)
  have z: "path_ptr s ino (r @ [i]) = 0" using hole_below [OF hole r(1)] r(2,3) rne by (simp add: path_ptr_snoc)
  have rd: "path_ptr s' ino (r @ [i]) = (if os ! length r \<le> i \<and> i < os ! length r + length (branch_targets new num j)
       then block_ptr s (branch_targets new num j ! (i - os ! length r)) else 0)"
    using splicedD(3) [OF sp j(2), of i] IH b rne j(1) by (simp add: path_ptr_snoc j_def [symmetric])
  show ?thesis
  proof (cases "Suc (length r) = length os")
    case True
    have "butlast os = r" using True r(3) by (metis butlast_conv_take diff_Suc_1)
    moreover have "last os = os ! length r" using True by (cases os rule: rev_cases) auto
    moreover have "j + 2 = length new" using new j True by simp
    moreover from this have "last new = new ! (j + 1)" by (cases new rule: rev_cases) auto
    ultimately have "butlast os = r" "last os = os ! length r" "j + 2 = length new" "last new = new ! (j + 1)" by simp_all
    then show ?thesis using True rd z by (auto simp: added_def branch_targets_def)
  next
    case False
    then have l: "Suc (length r) < length os" using r(2) by simp
    have "r @ [i] = take (Suc (length r)) os \<longleftrightarrow> i = os ! length r"
      using r(2,3) by (metis append1_eq_conv take_Suc_conv_app_nth)
    moreover have "branch_targets new num j = [new ! (j + 1)]" using new l j by (auto simp: branch_targets_def)
    moreover have "Suc (length r) - lv = j + 1" "lv \<le> Suc (length r)" using r(1) j by auto
    ultimately show ?thesis using rd z l by (auto simp: added_def)
  qed
qed

lemma spliced_old:
  assumes sp: "spliced s ino os lv new num s'" and hole: "hole_at s ino os lv" and tree: "tree_ok s ino"
    and os: "path_ok (EXT2_ADDR_PER_BLOCK s) os" and new: "length new = length os - lv + 1"
    and r: "ind_pos (EXT2_ADDR_PER_BLOCK s) r" "added os lv new num r = None" and IH: "path_ptr s' ino r = path_ptr s ino r"
  shows "path_ptr s' ino (r @ [i]) = (case added os lv new num (r @ [i]) of Some b \<Rightarrow> block_ptr s b | None \<Rightarrow> path_ptr s ino (r @ [i]))"
proof (cases "path_ptr s ino r = 0")
  case True
  have rne: "r \<noteq> []" using r(1) by (auto simp: ind_pos_def)
  have "added os lv new num (r @ [i]) = None"
    using added_parent [OF _ r(2) rne, of i] True hole by (cases "added os lv new num (r @ [i])") (auto simp: hole_at_def)
  then show ?thesis using True rne IH by (simp add: path_ptr_snoc)
next
  case False
  let ?p = "hole_place s ino os lv" and ?c = "if lv = length os then num else 1" and ?q = "take (lv - 1) os"
  have rne: "r \<noteq> []" using r(1) by (auto simp: ind_pos_def)
  have ri: "r \<in> ind_set s ino" using r(1) False by (simp add: ind_set_def)
  have eq: "path_ptr s' ino (r @ [i]) = read_ptr s' ino (In_block (ind_block s ino r) i)"
    using IH False rne splicedD(1) [OF sp] by (simp add: path_ptr_snoc ind_block_def ptr_block_def)
  have lv: "1 \<le> lv" "lv \<le> length os" using hole by (auto simp: hole_at_def)
  have lastos: "lv = length os \<Longrightarrow> os ! (lv - 1) = last os" using lv by (cases os rule: rev_cases) auto
  have hdnew: "hd new = new ! 0" "lv = length os \<Longrightarrow> hd new = last new"
    using new by (cases new; simp)+
  show ?thesis
  proof (cases "\<exists>j. j < ?c \<and> In_block (ind_block s ino r) i = ptr_plus ?p j")
    case True
    then obtain j where j: "j < ?c" "In_block (ind_block s ino r) i = ptr_plus ?p j" by blast
    then have l1: "1 < lv" "ind_block s ino r = ind_block s ino ?q" "i = os ! (lv - 1) + j"
      using lv by (auto simp: hole_place_def split: if_splits)
    have "?q \<in> ind_set s ino"
      using hole l1(1) path_ok_take [OF os, of "lv - 1"] by (auto simp: ind_set_def hole_at_def)
    then have rq: "r = ?q" using tree l1(2) ri by (auto simp: tree_ok_def dest: inj_onD)
    have len: "length r = lv - 1" using rq lv by simp
    have "added os lv new num (r @ [i]) = Some (hd new + j)"
    proof (cases "lv = length os")
      case True
      then have "butlast os = r" using rq by (simp add: butlast_conv_take)
      then show ?thesis using True j(1) l1 len lastos hdnew by (auto simp: added_def)
    next
      case False
      then have "r @ [i] = take lv os" "j = 0"
        using l1 j(1) rq lv take_Suc_conv_app_nth [of "lv - 1" os] by auto
      then show ?thesis using False len l1(1) lv hdnew by (auto simp: added_def)
    qed
    then show ?thesis using splicedD(2) [OF sp j(1)] eq j(2) by simp
  next
    case nrun: False
    have "added os lv new num (r @ [i]) = None"
    proof (rule ccontr)
      assume "added os lv new num (r @ [i]) \<noteq> None"
      then obtain b where "added os lv new num (r @ [i]) = Some b" by blast
      note ap = added_parent [OF this r(2) rne lv]
      then have "?p = In_block (ind_block s ino r) (os ! (lv - 1))" by (auto simp: hole_place_def)
      moreover have "i = os ! (lv - 1) + (i - os ! (lv - 1))" "i - os ! (lv - 1) < ?c"
        using ap lastos by (auto split: if_splits)
      ultimately show False using nrun by (metis ptr_plus.simps(2))
    qed
    then show ?thesis using splicedD(5) [OF sp ri, of i] nrun eq False rne by (auto simp: path_ptr_snoc ind_block_def)
  qed
qed

lemma spliced_path:
  assumes sp: "spliced s ino os lv new num s'" and hole: "hole_at s ino os lv" and tree: "tree_ok s ino"
    and os: "path_ok (EXT2_ADDR_PER_BLOCK s) os" and new: "length new = length os - lv + 1"
    and blk: "\<forall>b\<in>set (butlast new). 0 < b \<and> b < 2 ^ 32"
    and run: "last os + num \<le> (if length os = 1 then 12 else EXT2_ADDR_PER_BLOCK s)"
  shows "r \<noteq> [] \<Longrightarrow> butlast r = [] \<or> ind_pos (EXT2_ADDR_PER_BLOCK s) (butlast r) \<Longrightarrow>
    path_ptr s' ino r = (case added os lv new num r of Some b \<Rightarrow> block_ptr s b | None \<Rightarrow> path_ptr s ino r)"
proof (induction r rule: rev_induct)
  case (snoc i r)
  show ?case
  proof (cases "r = []")
    case True
    show ?thesis using spliced_inode [OF sp os hole new, of i] unfolding True append_Nil .
  next
    case False
    then have r: "ind_pos (EXT2_ADDR_PER_BLOCK s) r" using snoc.prems by simp
    then have IH: "path_ptr s' ino r = (case added os lv new num r of Some b \<Rightarrow> block_ptr s b | None \<Rightarrow> path_ptr s ino r)"
      using snoc.IH ind_pos_butlast by blast
    show ?thesis
    proof (cases "added os lv new num r")
      case None
      then show ?thesis using spliced_old [OF sp hole tree os new r None] IH by simp
    next
      case (Some b)
      have "lv \<le> length r \<and> length r < length os \<and> r = take (length r) os \<and> b = new ! (length r - lv)"
        using Some run_not_ind [OF os run r] by (auto simp: added_def split: if_splits)
      then show ?thesis using spliced_new [OF sp hole new blk] IH Some by simp
    qed
  qed
qed simp

text \<open>Where a chain that ends in a hole has its missing link.\<close>

lemma links_take: "k \<le> length offs \<Longrightarrow> links s ino p (take k offs) = take (Suc k) (links s ino p offs)"
proof (induction offs arbitrary: p k)
  case (Cons off offs)
  then show ?case by (cases k) auto
qed simp

lemma links_length: "length (links s ino p offs) \<le> Suc (length offs)"
  by (induction offs arbitrary: p) auto

lemma links_inner:
  "Suc i < length (links s ino p offs) \<Longrightarrow> ind_key (links s ino p offs ! i) \<noteq> 0 \<and>
     ind_p (links s ino p offs ! Suc i) = In_block (ptr_block s (ind_key (links s ino p offs ! i))) (offs ! i)"
proof (induction offs arbitrary: p i)
  case (Cons off offs)
  have "ind_p (hd (links s ino q offs)) = q" for q by (cases offs) auto
  then have "ind_p (links s ino q offs ! 0) = q" for q by (metis hd_conv_nth links_nonempty)
  then show ?case using Cons by (cases i) (auto split: if_splits)
qed simp

lemma chain_hole:
  assumes "os \<noteq> []" "path_ptr s ino os = 0"
  defines "ls \<equiv> path_links s ino os"
  shows "hole_at s ino os (length ls)" "ind_p (last ls) = hole_place s ino os (length ls)"
proof -
  have n: "1 \<le> length ls" "length ls \<le> length os"
    using links_length [of s ino "In_inode (hd os)" "tl os"] assms(1) by (auto simp: ls_def path_links_def Suc_le_eq)
  have tk: "path_ptr s ino (take k os) = ind_key (ls ! (k - 1))" if "1 \<le> k" "k \<le> length ls" for k
  proof -
    have "hd (take k os) = hd os" "tl (take k os) = take (k - 1) (tl os)" using that n assms(1) by (cases os; cases k; simp)+
    then have "path_links s ino (take k os) = take k ls"
      using links_take [of "k - 1" "tl os" s ino "In_inode (hd os)"] that n by (simp add: path_links_def ls_def)
    moreover have "last (take k ls) = ls ! (k - 1)" using that by (subst last_conv_nth) (auto simp: min_def)
    ultimately show ?thesis by (simp add: path_ptr_def)
  qed
  have last: "last ls = ls ! (length ls - 1)" using n by (simp add: last_conv_nth ls_def)
  then have "path_ptr s ino (take (length ls) os) = 0" using tk [of "length ls"] n assms(2) by (simp add: path_ptr_def ls_def)
  moreover have "path_ptr s ino (take (length ls - 1) os) \<noteq> 0" if "1 < length ls"
    using tk [of "length ls - 1"] that links_inner [of "length ls - 2" s ino "In_inode (hd os)" "tl os"]
    by (simp add: ls_def path_links_def numeral_2_eq_2 Suc_diff_Suc)
  ultimately show "hole_at s ino os (length ls)" using n by (simp add: hole_at_def)
  show "ind_p (last ls) = hole_place s ino os (length ls)"
  proof (cases "length ls = 1")
    case True
    then have "ls = [add_chain s ino (In_inode (hd os))]" unfolding ls_def path_links_def by (cases "tl os") (auto split: if_splits)
    then show ?thesis using True by (simp add: hole_place_def)
  next
    case False
    then have l: "1 < length ls" "Suc (length ls - 2) = length ls - 1" "length ls - 1 \<noteq> 0" using n by auto
    have "ind_p (last ls) = In_block (ptr_block s (ind_key (ls ! (length ls - 2)))) (tl os ! (length ls - 2))"
      using links_inner [of "length ls - 2" s ino "In_inode (hd os)" "tl os"] l last by (simp add: ls_def path_links_def)
    moreover have "tl os ! (length ls - 2) = os ! (length ls - 1)" using assms(1) l(2) by (cases os) (auto simp: nth_Cons' numeral_2_eq_2)
    moreover have "ind_key (ls ! (length ls - 2)) = path_ptr s ino (take (length ls - 1) os)"
      using tk [of "length ls - 1"] l by (simp add: numeral_2_eq_2)
    ultimately show ?thesis using l(1) by (simp add: hole_place_def ind_block_def)
  qed
qed

text \<open>The number of blocks that is asked for stays inside one block of pointers, and inside the hole.\<close>

lemma count_free_ptrs_ok:
  assumes "1 \<le> count" "int count \<le> boundary + 1" "\<And>j. j < count \<Longrightarrow> read_ptr s ino (ptr_plus p j) = 0"
  shows "count \<le> count_free_ptrs n s ino p boundary count \<and> count_free_ptrs n s ino p boundary count \<le> count + n \<and>
    int (count_free_ptrs n s ino p boundary count) \<le> boundary + 1 \<and>
    (\<forall>j. j < count_free_ptrs n s ino p boundary count \<longrightarrow> read_ptr s ino (ptr_plus p j) = 0)"
  using assms
proof (induction n arbitrary: count)
  case (Suc n)
  show ?case
  proof (cases "int count \<le> boundary \<and> read_ptr s ino (ptr_plus p count) = 0")
    case True
    then have "count + 1 \<le> count_free_ptrs n s ino p boundary (count + 1) \<and> count_free_ptrs n s ino p boundary (count + 1) \<le> count + 1 + n \<and>
      int (count_free_ptrs n s ino p boundary (count + 1)) \<le> boundary + 1 \<and>
      (\<forall>j. j < count_free_ptrs n s ino p boundary (count + 1) \<longrightarrow> read_ptr s ino (ptr_plus p j) = 0)"
      using Suc.prems by (intro Suc.IH) (auto simp: less_Suc_eq)
    then show ?thesis using True by simp
  next
    case False
    then have "count_free_ptrs (Suc n) s ino p boundary count = count" by auto
    then show ?thesis using Suc.prems by simp
  qed
qed simp

lemma blks_to_allocate_ok:
  fixes k :: nat
  assumes "1 \<le> blks" "0 \<le> boundary" "read_ptr s ino p = 0"
  defines "c \<equiv> ext2_blks_to_allocate s ino p k blks boundary"
  shows "1 \<le> c" "c \<le> blks" "int c \<le> boundary + 1" "k = 0 \<Longrightarrow> j < c \<Longrightarrow> read_ptr s ino (ptr_plus p j) = 0"
proof -
  have one: "1 \<le> (1::nat)" "int 1 \<le> boundary + 1" "\<And>j. j < 1 \<Longrightarrow> read_ptr s ino (ptr_plus p j) = 0" using assms by simp_all
  note f = count_free_ptrs_ok [OF one, of "blks - 1"]
  show "1 \<le> c" "c \<le> blks" "int c \<le> boundary + 1" "k = 0 \<Longrightarrow> j < c \<Longrightarrow> read_ptr s ino (ptr_plus p j) = 0"
    using f assms(1,2) unfolding c_def ext2_blks_to_allocate_def by (auto split: if_splits)
qed

text \<open>States that show the same pointers.\<close>

definition same_ptrs :: "nat \<Rightarrow> nat set \<Rightarrow> kstate \<Rightarrow> kstate \<Rightarrow> bool" where
  "same_ptrs ino X s s' \<longleftrightarrow> ks_arch s' = ks_arch s \<and> map_option i_data (ks_icache s' ino) = map_option i_data (ks_icache s ino) \<and>
     (\<forall>b. b \<notin> X \<longrightarrow> ks_dev s' b = ks_dev s b)"

lemma same_ptrs_refl [simp]: "same_ptrs ino X s s"
  by (simp add: same_ptrs_def)

lemma same_ptrs_trans: "same_ptrs ino X s t \<Longrightarrow> same_ptrs ino X t u \<Longrightarrow> same_ptrs ino X s u"
  by (simp add: same_ptrs_def)

lemma same_ptrs_mono: "same_ptrs ino X s t \<Longrightarrow> X \<subseteq> Y \<Longrightarrow> same_ptrs ino Y s t"
  by (auto simp: same_ptrs_def)

lemma same_ptrs_read:
  assumes "same_ptrs ino X s s'"
  shows "read_ptr s' ino (In_inode i) = read_ptr s ino (In_inode i)"
    "b \<notin> X \<Longrightarrow> read_ptr s' ino (In_block b i) = read_ptr s ino (In_block b i)"
  using assms by (auto simp: same_ptrs_def read_ptr.simps split: option.splits)

lemma fs_frame_same_ptrs: "fs_frame s s' \<Longrightarrow> same_ptrs ino (bitmap_blocks s) s s'"
proof -
  assume "fs_frame s s'"
  then have d: "data_frame s s'" by (simp add: fs_frame_def)
  then have "map_option i_data (map_option inode_core (ks_icache s' ino)) = map_option i_data (map_option inode_core (ks_icache s ino))"
    by (simp add: data_frame_def)
  then show ?thesis using d by (simp add: same_ptrs_def data_frame_def option.map_comp comp_def inode_core_def)
qed

lemma same_ptrs_upd_inode: "(\<And>ei. i_data (f ei) = i_data ei) \<Longrightarrow> same_ptrs ino X s (upd_inode n f s)"
  by (auto simp: same_ptrs_def option.map_comp comp_def split: option.splits)

text \<open>Spelled as one run of pointers, whatever the depth of the branch.\<close>

lemma splice_as_run:
  assumes "branch = \<lparr>ind_p = p, ind_key = block_ptr s b\<rparr> # rest" "b < 2 ^ 32" "1 \<le> blks"
  shows "\<exists>f. (\<forall>ei. i_data (f ei) = i_data ei \<and> i_gps (f ei) = i_gps (set_gps_ei (ks_arch s) (cur_gps (ks_gps s)) ei)) \<and>
    ext2_splice_branch ino block branch blks s = upd_inode ino f (write_run ino p b (if rest = [] then blks else 1) s)"
proof -
  let ?s1 = "write_ptr ino p (block_ptr s b) s"
  let ?s2 = "if rest = [] \<and> blks > 1 then write_run ino (ptr_plus p 1) (b + 1) (blks - 1) ?s1 else ?s1"
  have s2: "?s2 = write_run ino p b (if rest = [] then blks else 1) s"
    using assms(3) by (cases blks) (auto simp: Suc_le_eq)
  define l where "l = (\<lambda>ei :: ext2_inode_info. ei\<lparr>i_block_alloc_info := map_option (\<lambda>_. \<lparr>last_alloc_logical_block = nat (block + int blks - 1),
     last_alloc_physical_block = ptr_block s (ind_key (last branch)) + blks - 1\<rparr>) (i_block_alloc_info ei)\<rparr>)"
  define c where "c = upd_vfs (\<lambda>v. v\<lparr>i_ctime := \<lparr>tv_sec = get_seconds ?s2, tv_nsec = 0\<rparr>\<rparr>)"
  define g where "g = set_gps_ei (ks_arch s) (cur_gps (ks_gps s))"
  have gps: "snd (ext2_set_gps ino t) = upd_inode ino g t" if "ks_arch t = ks_arch s" "ks_gps t = ks_gps s" for t
    using that ext2_set_gps_Some [of t ino] by (cases "ks_icache t ino") (simp_all add: upd_inode_def g_def ext2_set_gps_def)
  have comp: "upd_inode ino f1 (upd_inode ino f2 t) = upd_inode ino (f1 \<circ> f2) t" for f1 f2 t
    by (simp add: upd_inode_def put_inode_def split: option.splits)
  have sec: "get_seconds (upd_inode ino f t) = get_seconds t" for f t by (simp add: get_seconds_def)
  have "ext2_splice_branch ino block branch blks s =
      upd_inode ino mark_inode_dirty (snd (ext2_set_gps ino (upd_inode ino c (upd_inode ino l ?s2))))"
    using assms(1,2) by (simp add: sec ext2_splice_branch_def set_last_alloc_def Let_def l_def c_def ptr_block_block_ptr)
  also have "\<dots> = upd_inode ino (mark_inode_dirty \<circ> (g \<circ> (c \<circ> l))) ?s2"
    by (subst gps) (simp_all add: comp)
  finally have "ext2_splice_branch ino block branch blks s =
      upd_inode ino (mark_inode_dirty \<circ> (g \<circ> (c \<circ> l))) (write_run ino p b (if rest = [] then blks else 1) s)"
    unfolding s2 .
  moreover have "\<forall>ei. i_data ((mark_inode_dirty \<circ> (g \<circ> (c \<circ> l))) ei) = i_data ei \<and>
      i_gps ((mark_inode_dirty \<circ> (g \<circ> (c \<circ> l))) ei) = i_gps (set_gps_ei (ks_arch s) (cur_gps (ks_gps s)) ei)"
    by (simp add: mark_inode_dirty_def g_def c_def l_def upd_vfs_def)
  ultimately show ?thesis by blast
qed

lemma branch_links_last:
  assumes "length new = length offs + 1"
  shows "ind_key (last (branch_links s p offs new)) = block_ptr s (last new)"
proof (cases "offs = []")
  case True
  then show ?thesis using assms by (cases new) (auto simp: branch_links_def)
next
  case False
  then have "zip offs (zip new (tl new)) \<noteq> []" using assms by (cases offs; cases new; cases "tl new") auto
  moreover have "last (zip offs (zip new (tl new))) = (last offs, new ! (length offs - 1), last new)"
  proof -
    have l: "length (zip offs (zip new (tl new))) = length offs" using assms by simp
    have "last new = tl new ! (length offs - 1)"
      using assms False by (cases new) (auto simp: last_conv_nth nth_Cons' Suc_le_eq)
    moreover have "tl new \<noteq> []" using False assms by (cases new) auto
    ultimately show ?thesis using False assms l by (subst last_conv_nth) (auto simp: last_conv_nth [of offs])
  qed
  ultimately show ?thesis by (simp add: branch_links_def last_map)
qed

text \<open>The whole of an allocation in a sound tree.\<close>

lemma write_run_dev:
  "(\<And>b i. p = In_block b i \<Longrightarrow> x \<noteq> b) \<Longrightarrow> ks_dev (write_run ino p c n s) x = ks_dev s x"
proof (induction n arbitrary: p c s)
  case (Suc n)
  have "ks_dev (write_run ino (ptr_plus p 1) (c + 1) n (write_ptr ino p (block_ptr s c) s)) x = ks_dev (write_ptr ino p (block_ptr s c) s) x"
    by (rule Suc.IH) (use Suc.prems in \<open>cases p; auto\<close>)
  then show ?case using Suc.prems by (cases p) (auto simp: put_block_def split: option.splits)
qed simp

lemma write_run_some: "ks_dev s x \<noteq> None \<Longrightarrow> ks_dev (write_run ino p c n s) x \<noteq> None"
proof (induction n arbitrary: p c s)
  case (Suc n)
  have "ks_dev (write_ptr ino p v s) x \<noteq> None" for v using Suc.prems by (cases p) (auto simp: put_block_def split: option.splits)
  then show ?case using Suc.IH by simp
qed simp

lemma write_run_icache:
  "ks_icache s ino = Some ei \<Longrightarrow> \<exists>ei'. ks_icache (write_run ino p c n s) ino = Some ei' \<and> length (i_data ei') = length (i_data ei)"
proof (induction n arbitrary: p c s ei)
  case (Suc n)
  have "\<exists>ei'. ks_icache (write_ptr ino p v s) ino = Some ei' \<and> length (i_data ei') = length (i_data ei)" for v
    using Suc.prems by (cases p) (auto simp: put_block_def split: option.splits)
  then show ?case using Suc.IH by (metis write_run.simps(2))
qed simp

definition geo_same :: "kstate \<Rightarrow> kstate \<Rightarrow> bool" where
  "geo_same s s' \<longleftrightarrow> ks_arch s' = ks_arch s \<and> s_blocksize (ks_sb s') = s_blocksize (ks_sb s) \<and> s_addr_per_block_bits (ks_sbi s') = s_addr_per_block_bits (ks_sbi s)"

lemma geo_same_path:
  assumes "geo_same s s'"
  shows "ext2_block_to_path s' b = ext2_block_to_path s b" "EXT2_ADDR_PER_BLOCK s' = EXT2_ADDR_PER_BLOCK s"
    "max_file_blocks s' = max_file_blocks s" "addr_ok s' = addr_ok s"
proof -
  show N: "EXT2_ADDR_PER_BLOCK s' = EXT2_ADDR_PER_BLOCK s" using assms by (simp add: geo_same_def EXT2_ADDR_PER_BLOCK_def)
  show "ext2_block_to_path s' b = ext2_block_to_path s b" "max_file_blocks s' = max_file_blocks s" "addr_ok s' = addr_ok s"
    using assms by (simp_all add: geo_same_def ext2_block_to_path_def max_file_blocks_def addr_ok_def N)
qed

lemma fs_frame_geo: "fs_frame s s' \<Longrightarrow> geo_same s s'"
proof -
  assume "fs_frame s s'"
  then have "ks_arch s' = ks_arch s" "s_blocksize (ks_sb s') = s_blocksize (ks_sb s)" "sbi_core (ks_sbi s') = sbi_core (ks_sbi s)"
    by (simp_all add: fs_frame_def data_frame_def)
  moreover have "s_addr_per_block_bits w = s_addr_per_block_bits (sbi_core w)" for w :: ext2_sb_info by (simp add: sbi_core_def)
  ultimately show ?thesis by (metis geo_same_def)
qed

lemma fs_frame_bitmaps: "fs_frame s s' \<Longrightarrow> bitmap_blocks s' = bitmap_blocks s"
  by (simp add: fs_frame_def desc_frame_bitmaps)

text \<open>Reading the same pointers, a file has the same blocks.\<close>

lemma same_ptrs_path:
  assumes "tree_ok s ino" "same_ptrs ino X s s'" "\<And>r. r \<in> ind_set s ino \<Longrightarrow> ind_block s ino r \<notin> X"
    and "r \<noteq> []" "butlast r = [] \<or> ind_pos (EXT2_ADDR_PER_BLOCK s) (butlast r)"
  shows "path_ptr s' ino r = path_ptr s ino r"
proof (rule path_ptr_cong [where n = "EXT2_ADDR_PER_BLOCK s"])
  show "ks_arch s' = ks_arch s" using assms(2) by (simp add: same_ptrs_def)
  show "read_ptr s' ino (In_inode i) = read_ptr s ino (In_inode i)" for i by (rule same_ptrs_read [OF assms(2)])
  show "read_ptr s' ino (In_block (ind_block s ino r) i) = read_ptr s ino (In_block (ind_block s ino r) i)"
    if "ind_pos (EXT2_ADDR_PER_BLOCK s) r" "path_ptr s ino r \<noteq> 0" for r i
    using that assms(3) by (intro same_ptrs_read [OF assms(2)]) (simp add: ind_set_def)
qed (use assms in auto)

lemma same_ptrs_tree:
  assumes "tree_ok s ino" "same_ptrs ino X s s'" "\<And>r. r \<in> ind_set s ino \<Longrightarrow> ind_block s ino r \<notin> X"
    and "geo_same s s'" "free_space s' \<subseteq> free_space s" "bitmap_blocks s' = bitmap_blocks s"
  shows "tree_ok s' ino" "ind_set s' ino = ind_set s ino" "r \<in> ind_set s ino \<Longrightarrow> ind_block s' ino r = ind_block s ino r"
proof -
  note pp = same_ptrs_path [OF assms(1-3)]
  have pb: "ptr_block s' = ptr_block s" using assms(2) by (simp add: fun_eq_iff ptr_block_def same_ptrs_def)
  have ip: "ind_pos (EXT2_ADDR_PER_BLOCK s) r \<Longrightarrow> path_ptr s' ino r = path_ptr s ino r" for r using pp ind_pos_butlast by blast
  then show set: "ind_set s' ino = ind_set s ino" using geo_same_path(2) [OF assms(4)] by (auto simp: ind_set_def)
  show blk: "ind_block s' ino r = ind_block s ino r" if "r \<in> ind_set s ino" for r
    using that ip pb by (simp add: ind_block_def ind_set_def)
  have "\<exists>ei. ks_icache s' ino = Some ei \<and> length (i_data ei) = 15"
    using assms(1,2) by (cases "ks_icache s' ino") (auto simp: tree_ok_def same_ptrs_def)
  moreover have "ks_dev s' (ind_block s ino r) = ks_dev s (ind_block s ino r)" if "r \<in> ind_set s ino" for r
    using assms(2) assms(3) [OF that] by (simp add: same_ptrs_def)
  ultimately show "tree_ok s' ino"
    using assms(1,5,6) blk inj_on_cong [of "ind_set s ino" "ind_block s' ino" "ind_block s ino"]
    unfolding tree_ok_def set by auto
qed

text \<open>A reservation window that is still empty may be reset.\<close>

lemma init_alloc_info_ok:
  assumes "alloc_inv s" "ino \<noteq> 0" "rsv_is_empty (win (ks_sbi s) ino)"
  defines "s' \<equiv> ext2_init_block_alloc_info ino s"
  shows "alloc_inv s'" "free_space s' = free_space s" "bitmap_blocks s' = bitmap_blocks s" "same_ptrs ino X s s'" "geo_same s s'"
    "ks_gps s' = ks_gps s"
proof -
  have lk: "lookup_group_desc s' g = lookup_group_desc s g" for g
    by (rule lookup_desc_geometry_cong) (auto simp: s'_def ext2_init_block_alloc_info_def upd_rsv_def Let_def split: option.splits)
  have geo: "same_geometry s s'"
    by (auto simp: s'_def ext2_init_block_alloc_info_def upd_rsv_def Let_def same_geometry_def desc_geometry_def split: option.splits)
  have dev: "ks_dev s' = ks_dev s" by (auto simp: s'_def ext2_init_block_alloc_info_def Let_def split: option.splits)
  have root: "s_rsv_window_root (ks_sbi s') = s_rsv_window_root (ks_sbi s)"
    by (auto simp: s'_def ext2_init_block_alloc_info_def upd_rsv_def Let_def split: option.splits)
  have win: "win (ks_sbi s') x = win (ks_sbi s) x \<or> x = ino \<and> rsv_is_empty (win (ks_sbi s') x)" for x
    by (auto simp: s'_def ext2_init_block_alloc_info_def upd_rsv_def rsv_is_empty_def Let_def split: option.splits)
  have inv: "rsv_inv (ks_sbi s)" using assms(1) by (simp add: balloc_inv_def)
  have "x \<noteq> ino" if "x \<in> set (inorder_rb (s_rsv_window_root (ks_sbi s)))" for x using that inv assms(2,3) by (auto simp: rsv_inv_def)
  then have "win_sorted (win (ks_sbi s')) (inorder_rb (s_rsv_window_root (ks_sbi s))) = win_sorted (win (ks_sbi s)) (inorder_rb (s_rsv_window_root (ks_sbi s)))"
    using win by (intro win_sorted_cong) blast
  moreover have "rsv_is_empty (win (ks_sbi s') x) = rsv_is_empty (win (ks_sbi s) x)" for x using win [of x] assms(3) by auto
  moreover have "win (ks_sbi s') 0 = win (ks_sbi s) 0" using win [of 0] assms(2) by auto
  ultimately have "rsv_inv (ks_sbi s')" using inv unfolding rsv_inv_def root by simp
  then show "alloc_inv s'" using space_cong(2) [OF geo lk dev] assms(1)
    by (auto simp: s'_def ext2_init_block_alloc_info_def Let_def split: option.splits)
  show "free_space s' = free_space s" by (rule space_cong(1) [OF geo lk dev])
  show "bitmap_blocks s' = bitmap_blocks s" by (simp add: bitmap_blocks_def lk)
  show "same_ptrs ino X s s'" "geo_same s s'" "ks_gps s' = ks_gps s"
    by (auto simp: s'_def ext2_init_block_alloc_info_def upd_rsv_def Let_def same_ptrs_def geo_same_def split: option.splits)
qed

definition layout_ok :: "kstate \<Rightarrow> bool" where
  "layout_ok s \<longleftrightarrow> 0 \<notin> free_space s \<and> free_space s \<inter> bitmap_blocks s = {}"

text \<open>
  What holds while a branch is built: the path \<open>os\<close> has its hole at level \<open>lv\<close>, and the blocks of the
  branch have been taken out of the free space.
\<close>

definition building :: "kstate \<Rightarrow> nat \<Rightarrow> nat list \<Rightarrow> nat \<Rightarrow> nat list \<Rightarrow> nat \<Rightarrow> kstate \<Rightarrow> bool" where
  "building s ino os lv new num t \<longleftrightarrow>
     alloc_inv s \<and> layout_ok s \<and> tree_ok s ino \<and> path_ok (EXT2_ADDR_PER_BLOCK s) os \<and> hole_at s ino os lv \<and>
     new_branch s (length os - lv) num new num t \<and> alloc_inv t \<and> fs_frame s t \<and>
     last os + num \<le> (if length os = 1 then 12 else EXT2_ADDR_PER_BLOCK s)"

lemma new_block_facts:
  assumes "building s ino os lv new num t" "b \<in> branch_blocks new num"
  shows "0 < b" "b < 2 ^ 32" "b \<in> free_space s" "b \<notin> bitmap_blocks s" "r \<in> ind_set s ino \<Longrightarrow> ind_block s ino r \<noteq> b"
proof -
  have inv: "alloc_inv s" "layout_ok s" "tree_ok s ino" and sub: "branch_blocks new num \<subseteq> free_space s"
    using assms(1) by (simp_all add: building_def new_branch_def)
  show f: "b \<in> free_space s" using sub assms(2) by blast
  show "0 < b" "b \<notin> bitmap_blocks s" using f inv(2) by (cases b; auto simp: layout_ok_def)+
  have "freeable s {b}" using free_run_freeable inv(1) f by simp
  then have "b < unat (es_blocks_count (ks_es s))" by (simp add: freeable_def)
  then show "b < 2 ^ 32" using unsigned_less [of "es_blocks_count (ks_es s)", where ?'a = nat] by simp
  show "ind_block s ino r \<noteq> b" if "r \<in> ind_set s ino" using that inv(3) f by (auto simp: tree_ok_def)
qed

lemma new_members:
  assumes "building s ino os lv new num t"
  shows "length new = length os - lv + 1" "hd new \<in> branch_blocks new num" "last new \<in> branch_blocks new num" "1 \<le> num"
    "set (butlast new) \<subseteq> branch_blocks new num" "j < length os - lv \<Longrightarrow> new ! j \<in> set (butlast new)" "distinct (butlast new)"
proof -
  have n: "length new = length os - lv + 1" "1 \<le> num" "distinct (butlast new)" using assms by (auto simp: building_def new_branch_def)
  then show "length new = length os - lv + 1" "1 \<le> num" "distinct (butlast new)" by simp_all
  show l: "last new \<in> branch_blocks new num" "set (butlast new) \<subseteq> branch_blocks new num" using n(2) by (auto simp: branch_blocks_def)
  have "hd new = last new \<or> hd new \<in> set (butlast new)" using n(1) by (cases new) auto
  then show "hd new \<in> branch_blocks new num" using l by auto
  show "new ! j \<in> set (butlast new)" if "j < length os - lv"
    using that n(1) by (metis add_diff_cancel_right' length_butlast nth_butlast nth_mem)
qed

lemma linked_state:
  assumes b: "building s ino os lv new num t"
  defines "u \<equiv> link_branch (drop lv os) new num t"
  shows "same_ptrs ino (bitmap_blocks s \<union> set (butlast new)) s u"
    "j < length os - lv \<Longrightarrow> ks_dev u (new ! j) = Some (indirect_block s (os ! (lv + j)) (branch_targets new num j))"
    "ks_sbi u = ks_sbi t" "ks_es u = ks_es t" "ks_gdesc u = ks_gdesc t" "ks_sb u = ks_sb t" "ks_arch u = ks_arch s" "ks_gps u = ks_gps s"
    "x \<notin> set (butlast new) \<Longrightarrow> ks_dev u x = ks_dev t x"
proof -
  note m = new_members [OF b]
  have fr: "fs_frame s t" and lv: "lv \<le> length os" using b by (auto simp: building_def hole_at_def)
  have arch: "ks_arch t = ks_arch s" "ks_gps t = ks_gps s" using fr by (simp_all add: fs_frame_def data_frame_def)
  have len: "length new = length (drop lv os) + 1" using m(1) by simp
  note dev = link_branch_dev [OF len m(7), of num t]
  show "x \<notin> set (butlast new) \<Longrightarrow> ks_dev u x = ks_dev t x" using dev by (simp add: u_def)
  have "same_ptrs ino (set (butlast new)) t u" using dev by (simp add: same_ptrs_def u_def)
  then show "same_ptrs ino (bitmap_blocks s \<union> set (butlast new)) s u"
    using same_ptrs_trans [OF same_ptrs_mono [OF fs_frame_same_ptrs [OF fr]] same_ptrs_mono] by blast
  show "j < length os - lv \<Longrightarrow> ks_dev u (new ! j) = Some (indirect_block s (os ! (lv + j)) (branch_targets new num j))"
    using dev lv indirect_block_arch [OF arch(1)] by (simp add: u_def)
qed (use assms in \<open>simp_all add: u_def building_def fs_frame_def data_frame_def\<close>)

lemma hole_writable:
  assumes b: "building s ino os lv new num t"
  defines "u \<equiv> link_branch (drop lv os) new num t"
  shows "writable u ino (hole_place s ino os lv) (if lv = length os then num else 1)"
    "hole_place s ino os lv = In_block x i \<Longrightarrow> \<exists>r\<in>ind_set s ino. x = ind_block s ino r"
proof -
  have h: "hole_at s ino os lv" "tree_ok s ino" "path_ok (EXT2_ADDR_PER_BLOCK s) os"
    "last os + num \<le> (if length os = 1 then 12 else EXT2_ADDR_PER_BLOCK s)" using b by (simp_all add: building_def)
  note sp = linked_state(1) [OF b, folded u_def]
  have ind: "take (lv - 1) os \<in> ind_set s ino" if "1 < lv"
    using that h(1) path_ok_take [OF h(3), of "lv - 1"] by (auto simp: ind_set_def hole_at_def)
  show "\<exists>r\<in>ind_set s ino. x = ind_block s ino r" if "hole_place s ino os lv = In_block x i"
    using that ind h(1) by (auto simp: hole_place_def hole_at_def split: if_splits)
  show "writable u ino (hole_place s ino os lv) (if lv = length os then num else 1)"
  proof (cases "lv = 1")
    case True
    obtain ei where "ks_icache u ino = Some ei" "length (i_data ei) = 15"
      using h(2) sp by (cases "ks_icache u ino") (auto simp: tree_ok_def same_ptrs_def)
    moreover have "hd os + (if lv = length os then num else 1) \<le> 15"
      using True h(3,4) by (elim path_ok_elim) auto
    ultimately show ?thesis using True by (simp add: hole_place_def)
  next
    case False
    then have "1 < lv" using h(1) by (auto simp: hole_at_def)
    note r = ind [OF this]
    have "ind_block s ino (take (lv - 1) os) \<notin> bitmap_blocks s \<union> set (butlast new)"
      using r h(2) new_block_facts(5) [OF b _ r] new_members(5) [OF b] by (auto simp: tree_ok_def)
    then have "ks_dev u (ind_block s ino (take (lv - 1) os)) = ks_dev s (ind_block s ino (take (lv - 1) os))"
      using sp by (simp add: same_ptrs_def)
    then show ?thesis using False r h(2) by (auto simp: hole_place_def tree_ok_def)
  qed
qed

lemma branch_spliced:
  assumes b: "building s ino os lv new num t"
  defines "p \<equiv> hole_place s ino os lv" and "cnt \<equiv> if lv = length os then num else 1"
  defines "u \<equiv> link_branch (drop lv os) new num t"
  assumes v: "same_ptrs ino {} (write_run ino p (hd new) cnt u) v"
  shows "spliced s ino os lv new num v"
proof -
  let ?w = "write_run ino p (hd new) cnt u"
  note m = new_members [OF b] and ls = linked_state [OF b, folded u_def] and wr = hole_writable [OF b, folded u_def, folded p_def cnt_def]
  have rd: "read_ptr v ino q = read_ptr ?w ino q" for q by (cases q) (simp_all add: same_ptrs_read [OF v])
  have bp: "block_ptr u = block_ptr s" by (simp add: fun_eq_iff block_ptr_def ls(7))
  have lv: "lv \<le> length os" using b by (simp add: building_def hole_at_def)
  have tree: "ind_block s ino r \<notin> bitmap_blocks s \<union> set (butlast new)" if "r \<in> ind_set s ino" for r
    using that b new_block_facts(5) [OF b _ that] m(5) by (auto simp: building_def tree_ok_def)
  have np: "In_block (new ! j) i \<noteq> ptr_plus p k" if "j < length os - lv" for j i k
  proof
    assume e: "In_block (new ! j) i = ptr_plus p k"
    then obtain i' where "p = In_block (new ! j) i'" by (cases p) auto
    then obtain r where "r \<in> ind_set s ino" "new ! j = ind_block s ino r" using wr(2) by blast
    then show False using tree [of r] m(6) [OF that] by auto
  qed
  show ?thesis
    unfolding spliced_def Let_def p_def [symmetric] cnt_def [symmetric] rd
  proof (intro conjI allI impI ballI)
    show "ks_arch v = ks_arch s" using v ls(7) by (simp add: same_ptrs_def)
    show "read_ptr ?w ino (ptr_plus p j) = block_ptr s (hd new + j)" if "j < cnt" for j
      using read_write_run [OF wr(1) that, of "hd new"] by (simp add: bp)
    show "read_ptr ?w ino (In_block (new ! j) i) = (if os ! (lv + j) \<le> i \<and> i < os ! (lv + j) + length (branch_targets new num j)
       then block_ptr s (branch_targets new num j ! (i - os ! (lv + j))) else 0)" if "lv + j < length os" for j i
    proof -
      have j: "j < length os - lv" using that by simp
      have "read_ptr ?w ino (In_block (new ! j) i) = read_ptr u ino (In_block (new ! j) i)"
        using np [OF j] by (intro read_write_run_other [OF wr(1)])
      also have "\<dots> = load_word (ks_arch s) (indirect_block s (os ! (lv + j)) (branch_targets new num j)) (4 * i)"
        using ls(2) [OF j] ls(7) by (simp add: read_ptr.simps)
      finally show ?thesis by (simp only: indirect_block_load)
    qed
    show "read_ptr ?w ino (In_inode i) = read_ptr s ino (In_inode i)" if "\<forall>j. j < cnt \<longrightarrow> In_inode i \<noteq> ptr_plus p j" for i
      using read_write_run_other [OF wr(1), of "In_inode i" "hd new"] that same_ptrs_read(1) [OF ls(1)] by simp
    show "read_ptr ?w ino (In_block (ind_block s ino r) i) = read_ptr s ino (In_block (ind_block s ino r) i)"
      if "r \<in> ind_set s ino" "\<forall>j. j < cnt \<longrightarrow> In_block (ind_block s ino r) i \<noteq> ptr_plus p j" for r i
      using read_write_run_other [OF wr(1), of "In_block (ind_block s ino r) i" "hd new"] that same_ptrs_read(2) [OF ls(1) tree] by simp
  qed
qed

lemma spliced_space:
  assumes b: "building s ino os lv new num t"
  defines "p \<equiv> hole_place s ino os lv" and "cnt \<equiv> if lv = length os then num else 1"
  defines "u \<equiv> link_branch (drop lv os) new num t"
  assumes v: "v = upd_inode ino f (write_run ino p (hd new) cnt u)"
  shows "alloc_inv v" "free_space v = free_space s - branch_blocks new num" "bitmap_blocks v = bitmap_blocks s" "geo_same s v"
    "\<And>x. ks_dev u x \<noteq> None \<Longrightarrow> ks_dev v x \<noteq> None"
proof -
  note m = new_members [OF b] and ls = linked_state [OF b, folded u_def] and wr = hole_writable [OF b, folded u_def, folded p_def cnt_def]
  have t: "alloc_inv t" "fs_frame s t" "free_space t = free_space s - branch_blocks new num"
    using b by (simp_all add: building_def new_branch_def)
  have dev: "ks_dev v x = ks_dev t x" if "x \<in> bitmap_blocks t" for x
  proof -
    have x: "x \<in> bitmap_blocks s" using that fs_frame_bitmaps [OF t(2)] by simp
    have "x \<noteq> y" if "p = In_block y i" for y i
      using wr(2) [OF that] x b by (auto simp: building_def tree_ok_def)
    then have "ks_dev v x = ks_dev u x" unfolding v by (simp add: write_run_dev)
    moreover have "x \<notin> set (butlast new)" using x new_block_facts(4) [OF b] m(5) by blast
    ultimately show ?thesis using ls(9) by simp
  qed
  have k: "ks_sbi v = ks_sbi t" "ks_es v = ks_es t" "ks_gdesc v = ks_gdesc t" "ks_sb v = ks_sb t"
    by (simp_all add: v ls(3-6))
  note sp = space_same [OF k(1-3) dev]
  show "alloc_inv v" using sp(2) t(1) k(4) by simp
  show "free_space v = free_space s - branch_blocks new num" using sp(1) t(3) by simp
  show "bitmap_blocks v = bitmap_blocks s" using sp(3) fs_frame_bitmaps [OF t(2)] by simp
  have "ks_arch v = ks_arch s" by (simp add: v ls(7))
  then show "geo_same s v" using fs_frame_geo [OF t(2)] by (simp add: geo_same_def k)
  show "ks_dev u x \<noteq> None \<Longrightarrow> ks_dev v x \<noteq> None" for x unfolding v using write_run_some by simp
qed

lemma added_ind:
  assumes "path_ok n os" "last os + num \<le> (if length os = 1 then 12 else n)" "ind_pos n r" "added os lv new num r = Some x"
  shows "lv \<le> length r" "length r < length os" "r = take (length r) os" "x = new ! (length r - lv)"
  using assms(4) run_not_ind [OF assms(1-3)] by (auto simp: added_def split: if_splits)

lemma spliced_tree:
  assumes b: "building s ino os lv new num t"
  defines "p \<equiv> hole_place s ino os lv" and "cnt \<equiv> if lv = length os then num else 1"
  defines "u \<equiv> link_branch (drop lv os) new num t"
  assumes f: "\<And>ei. i_data (f ei) = i_data ei" and v: "v = upd_inode ino f (write_run ino p (hd new) cnt u)"
  shows "tree_ok v ino"
    "r \<noteq> [] \<Longrightarrow> butlast r = [] \<or> ind_pos (EXT2_ADDR_PER_BLOCK s) (butlast r) \<Longrightarrow>
      path_ptr v ino r = (case added os lv new num r of Some x \<Rightarrow> block_ptr s x | None \<Rightarrow> path_ptr s ino r)"
proof -
  let ?N = "EXT2_ADDR_PER_BLOCK s"
  note m = new_members [OF b] and ls = linked_state [OF b, folded u_def]
  note sp = spliced_space [OF b, folded u_def p_def cnt_def, OF v]
  have s: "hole_at s ino os lv" "tree_ok s ino" "path_ok ?N os" "last os + num \<le> (if length os = 1 then 12 else ?N)"
    using b by (simp_all add: building_def)
  have "spliced s ino os lv new num v"
    by (rule branch_spliced [OF b, folded u_def p_def cnt_def]) (simp add: v same_ptrs_upd_inode f)
  note path = spliced_path [OF this s(1-3) m(1) _ s(4)]
  have blk: "\<forall>x\<in>set (butlast new). 0 < x \<and> x < 2 ^ 32" using new_block_facts(1,2) [OF b] m(5) by blast
  then show pp: "path_ptr v ino r = (case added os lv new num r of Some x \<Rightarrow> block_ptr s x | None \<Rightarrow> path_ptr s ino r)"
    if "r \<noteq> []" "butlast r = [] \<or> ind_pos ?N (butlast r)" for r using path that by blast
  have N: "EXT2_ADDR_PER_BLOCK v = ?N" by (rule geo_same_path(2) [OF sp(4)])
  have arch: "ks_arch v = ks_arch s" by (simp add: v ls(7))
  have blkv: "ind_block v ino r \<in> set (butlast new) \<and> ind_block v ino r = new ! (length r - lv) \<and> lv \<le> length r \<and> length r < length os \<and>
      r = take (length r) os \<or> r \<in> ind_set s ino \<and> ind_block v ino r = ind_block s ino r" if r: "r \<in> ind_set v ino" for r
  proof -
    have ri: "ind_pos ?N r" "path_ptr v ino r \<noteq> 0" using r by (auto simp: ind_set_def N)
    have e: "path_ptr v ino r = (case added os lv new num r of Some x \<Rightarrow> block_ptr s x | None \<Rightarrow> path_ptr s ino r)"
      using pp ind_pos_butlast [OF ri(1)] by blast
    show ?thesis
    proof (cases "added os lv new num r")
      case None
      then show ?thesis using e ri by (simp add: ind_set_def ind_block_def ptr_block_def arch)
    next
      case (Some x)
      note a = added_ind [OF s(3,4) ri(1) Some]
      have "x \<in> set (butlast new)" using m(6) [of "length r - lv"] a by simp
      moreover from this have "ind_block v ino r = x" using e Some blk ptr_block_block_ptr [of x s] by (simp add: ind_block_def ptr_block_def arch)
      ultimately show ?thesis using a by simp
    qed
  qed
  have old: "ind_block s ino r \<notin> set (butlast new)" if "r \<in> ind_set s ino" for r
    using new_block_facts(5) [OF b _ that] m(5) by blast
  show "tree_ok v ino"
    unfolding tree_ok_def
  proof (intro conjI ballI inj_onI)
    obtain ei where "ks_icache u ino = Some ei" "length (i_data ei) = 15"
      using s(2) ls(1) by (cases "ks_icache u ino") (auto simp: tree_ok_def same_ptrs_def)
    then show "\<exists>ei. ks_icache v ino = Some ei \<and> length (i_data ei) = 15"
      using write_run_icache [of u ino ei p "hd new" cnt] f by (auto simp: v)
  next
    fix r assume r: "r \<in> ind_set v ino"
    have st: "ind_block s ino r \<notin> free_space s" "ind_block s ino r \<notin> bitmap_blocks s" "ks_dev s (ind_block s ino r) \<noteq> None"
      if "r \<in> ind_set s ino" using that s(2) by (auto simp: tree_ok_def)
    show "ind_block v ino r \<notin> free_space v" "ind_block v ino r \<notin> bitmap_blocks v"
      using blkv [OF r] st m(5) new_block_facts(4) [OF b] by (auto simp: sp(2,3))
    show "ks_dev v (ind_block v ino r) \<noteq> None"
    proof (rule sp(5))
      from blkv [OF r] show "ks_dev u (ind_block v ino r) \<noteq> None"
      proof
        assume "r \<in> ind_set s ino \<and> ind_block v ino r = ind_block s ino r"
        then show ?thesis using st old ls(1) by (auto simp: same_ptrs_def)
      qed (auto simp: ls(2))
    qed
  next
    fix r r' assume r: "r \<in> ind_set v ino" "r' \<in> ind_set v ino" "ind_block v ino r = ind_block v ino r'"
    have nth: "i = j" if "new ! (i - lv) = new ! (j - lv)" "lv \<le> i" "i < length os" "lv \<le> j" "j < length os" for i j
    proof -
      have "i - lv < length (butlast new)" "j - lv < length (butlast new)" using that m(1) by (simp_all add: diff_less_mono)
      then have "i - lv = j - lv" using m(7) that(1) by (metis nth_butlast nth_eq_iff_index_eq)
      then show ?thesis using that(2,4) by simp
    qed
    show "r = r'"
    proof (cases "ind_block v ino r \<in> set (butlast new)")
      case True
      then have a: "lv \<le> length r" "length r < length os" "r = take (length r) os" "ind_block v ino r = new ! (length r - lv)"
        "lv \<le> length r'" "length r' < length os" "r' = take (length r') os" "ind_block v ino r' = new ! (length r' - lv)"
        using blkv r old by metis+
      have "new ! (length r - lv) = new ! (length r' - lv)" using a(4,8) r(3) by simp
      then have "length r = length r'" using nth a(1,2,5,6) by blast
      then show ?thesis using a(3,7) by metis
    next
      case False
      then have "r \<in> ind_set s ino" "r' \<in> ind_set s ino" "ind_block s ino r = ind_block s ino r'" using blkv r by metis+
      then show ?thesis using s(2) by (auto simp: tree_ok_def dest: inj_onD)
    qed
  qed
qed

lemma file_ptr_path: "file_ptr s ino c = path_ptr s ino (fst (ext2_block_to_path s c))"
  by (simp add: file_ptr_def path_ptr_def)

lemma same_reads:
  assumes "ks_arch s' = ks_arch s" "\<And>q. read_ptr s' ino q = read_ptr s ino q"
  shows "path_links s' ino os = path_links s ino os" "path_ptr s' ino os = path_ptr s ino os" "ind_block s' ino os = ind_block s ino os"
proof -
  have pb: "ptr_block s' = ptr_block s" by (simp add: fun_eq_iff ptr_block_def assms(1))
  have "links s' ino p offs = links s ino p offs" for p offs
    by (induction offs arbitrary: p) (simp_all add: add_chain_def assms(2) pb)
  then show l: "path_links s' ino os = path_links s ino os" by (simp add: path_links_def)
  show "path_ptr s' ino os = path_ptr s ino os" "ind_block s' ino os = ind_block s ino os"
    by (simp_all add: path_ptr_def ind_block_def l pb)
qed

lemma path_not_prefix:
  assumes "path_ok n os" "path_ok n os'" "1 \<le> length os'" "length os' < length os"
  shows "os' \<noteq> take (length os') os"
  using assms by (auto elim!: path_ok_elim)

lemma added_path:
  assumes "addr_ok s" "0 \<le> b" "b < max_file_blocks s" "ext2_block_to_path s b = (os, bd)" "int num \<le> bd + 1"
    and "0 \<le> c" "c < max_file_blocks s" "1 \<le> lv"
  shows "added os lv new num (fst (ext2_block_to_path s c)) =
    (if b \<le> c \<and> c < b + int num then Some (last new + nat (c - b)) else None)"
proof -
  let ?N = "EXT2_ADDR_PER_BLOCK s"
  obtain os' bd' where os': "ext2_block_to_path s c = (os', bd')" by (cases "ext2_block_to_path s c")
  have v: "path_ok ?N os" "path_block (int ?N) os = b" using path_valid [OF assms(1-4)] by auto
  have v': "path_ok ?N os'" "path_block (int ?N) os' = c" using path_valid [OF assms(1,6,7) os'] by auto
  have bd: "bd = (if length os = 1 then 11 else int ?N - 1) - int (last os)"
    using path_of_block(3) [OF assms(1) v(1)] v(2) assms(4) by simp
  have ne: "1 \<le> length os'" "os' \<noteq> []" using v'(1) by (auto simp: path_ok_def)
  have run: "last os + i < (if length os = 1 then 12 else ?N)" if "i < num" for i
    using that assms(5) bd by (auto split: if_splits)
  show ?thesis
  proof (cases "b \<le> c \<and> c < b + int num")
    case True
    then have i: "nat (c - b) < num" "c = b + int (nat (c - b))" "int (nat (c - b)) \<le> bd" using assms(5) by auto
    have "os' = butlast os @ [last os + nat (c - b)]"
      using path_boundary [OF assms(1-4) i(3)] os' i(2) by simp
    moreover have "length os = length os'" using calculation v(1) by (cases os rule: rev_cases) (auto simp: path_ok_def)
    ultimately show ?thesis using True i(1) os' by (simp add: added_def)
  next
    case False
    have "c = b + int (last os' - last os)"
      if "length os' = length os" "butlast os' = butlast os" "last os \<le> last os'" "last os' < last os + num"
    proof -
      have "os' = butlast os @ [last os + (last os' - last os)]" using that ne by (metis append_butlast_last_id le_add_diff_inverse)
      then show ?thesis using path_step(2) [OF v(1), of "last os' - last os" "int ?N"] run [of "last os' - last os"] that v(2) v'(2) by auto
    qed
    then have "\<not> (length os' = length os \<and> butlast os' = butlast os \<and> last os \<le> last os' \<and> last os' < last os + num)"
      using False by auto
    then show ?thesis using False os' path_not_prefix [OF v(1) v'(1) ne(1)] by (auto simp: added_def)
  qed
qed

text \<open>The pointers of the run were all missing.\<close>

lemma run_was_hole:
  assumes "path_ok n os" "hole_at s ino os lv" "lv = length os \<Longrightarrow> read_ptr s ino (ptr_plus (hole_place s ino os lv) j) = 0"
  shows "path_ptr s ino (butlast os @ [last os + j]) = 0"
proof (cases "lv = length os")
  case True
  show ?thesis
  proof (cases "length os = 1")
    case one: True
    then obtain h where "os = [h]" by (auto simp: length_Suc_conv)
    then show ?thesis using assms(3) True by (simp add: hole_place_def)
  next
    case False
    then have l: "1 < length os" "butlast os \<noteq> []" using assms(1) by (cases os rule: rev_cases; auto simp: path_ok_def)+
    have "take (lv - 1) os = butlast os" "os ! (lv - 1) = last os" "path_ptr s ino (butlast os) \<noteq> 0"
      using True l assms(2) by (auto simp: butlast_conv_take last_conv_nth hole_at_def)
    then show ?thesis using assms(3) True l by (simp add: path_ptr_snoc hole_place_def ind_block_def)
  qed
next
  case False
  then have "lv \<le> length os - 1" "butlast os \<noteq> []" using assms(2) by (cases os rule: rev_cases; auto simp: hole_at_def)+
  then show ?thesis using hole_below [OF assms(2), of "length os - 1"] by (simp add: path_ptr_snoc butlast_conv_take)
qed

text \<open>What \<open>ext2_get_blocks\<close> has done to a file when it returns.\<close>

definition gps_now :: "kstate \<Rightarrow> gps_on_disk" where
  "gps_now s = (let k = cur_gps (ks_gps s) in
     \<lparr>d_latitude = latitude (loc k), d_longitude = longitude (loc k), d_accuracy = accuracy (loc k),
      d_age = cpu_to_le (ks_arch s) (tv_sec (timestamp k))\<rparr>)"

definition blocks_added :: "kstate \<Rightarrow> nat \<Rightarrow> int \<Rightarrow> nat \<Rightarrow> nat \<Rightarrow> kstate \<Rightarrow> bool" where
  "blocks_added s ino b first num s' \<longleftrightarrow>
     {first..<first + num} \<subseteq> free_space s \<and> free_space s' \<subseteq> free_space s - {first..<first + num} \<and>
     (\<forall>c. 0 \<le> c \<longrightarrow> c < max_file_blocks s \<longrightarrow>
        (if b \<le> c \<and> c < b + int num then file_ptr s ino c = 0 \<and> file_ptr s' ino c = block_ptr s (first + nat (c - b))
         else file_ptr s' ino c = file_ptr s ino c)) \<and>
     (\<exists>ei. ks_icache s' ino = Some ei \<and> i_gps ei = gps_now s)"

definition file_kept :: "kstate \<Rightarrow> nat \<Rightarrow> kstate \<Rightarrow> bool" where
  "file_kept s ino s' \<longleftrightarrow> free_space s' = free_space s \<and>
     (\<forall>c. 0 \<le> c \<longrightarrow> c < max_file_blocks s \<longrightarrow> file_ptr s' ino c = file_ptr s ino c)"

lemma blocks_added_start:
  assumes "same_ptrs ino {} s t" "geo_same s t" "free_space t = free_space s" "ks_gps t = ks_gps s"
  shows "blocks_added t ino b first num u = blocks_added s ino b first num u" "file_kept t ino u = file_kept s ino u"
proof -
  have arch: "ks_arch t = ks_arch s" using assms(1) by (simp add: same_ptrs_def)
  have rd: "read_ptr t ino q = read_ptr s ino q" for q by (cases q) (simp_all add: same_ptrs_read [OF assms(1)])
  have f: "file_ptr t ino c = file_ptr s ino c" for c
    using same_reads(2) [OF arch rd] geo_same_path(1) [OF assms(2)] by (simp add: file_ptr_path)
  have bp: "block_ptr t = block_ptr s" by (simp add: fun_eq_iff block_ptr_def arch)
  show "blocks_added t ino b first num u = blocks_added s ino b first num u" "file_kept t ino u = file_kept s ino u"
    by (simp_all add: blocks_added_def file_kept_def f bp assms(3,4) geo_same_path(3) [OF assms(2)] gps_now_def arch)
qed

lemma branch_done:
  assumes b: "building s ino os lv new num t" and path: "addr_ok s" "0 \<le> b" "b < max_file_blocks s" "ext2_block_to_path s b = (os, bd)" "int num \<le> bd + 1"
    and hole: "\<And>j. lv = length os \<Longrightarrow> j < num \<Longrightarrow> read_ptr s ino (ptr_plus (hole_place s ino os lv) j) = 0"
  defines "u \<equiv> link_branch (drop lv os) new num t"
  defines "br \<equiv> branch_links t (hole_place s ino os lv) (drop lv os) new"
  defines "v \<equiv> ext2_splice_branch ino b br num u"
  shows "alloc_inv v" "tree_ok v ino" "layout_ok v" "geo_same s v" "blocks_added s ino b (last new) num v" "ptr_block v (ind_key (last br)) = last new"
proof -
  let ?p = "hole_place s ino os lv" and ?c = "if lv = length os then num else 1"
  note m = new_members [OF b] and ls = linked_state [OF b, folded u_def]
  have s: "hole_at s ino os lv" "path_ok (EXT2_ADDR_PER_BLOCK s) os" "fs_frame s t" "layout_ok s" using b by (simp_all add: building_def)
  have arch: "ks_arch t = ks_arch s" using s(3) by (simp add: fs_frame_def data_frame_def)
  then have bp: "block_ptr t = block_ptr u" "block_ptr u = block_ptr s" by (simp_all add: fun_eq_iff block_ptr_def ls(7))
  have len: "length new = length (drop lv os) + 1" using m(1) by simp
  have rest: "tl br = [] \<longleftrightarrow> lv = length os"
    using s(1) len by (cases "drop lv os"; cases new; cases "tl new") (auto simp: br_def branch_links_def hole_at_def)
  have "br = \<lparr>ind_p = ?p, ind_key = block_ptr u (hd new)\<rparr> # tl br" by (simp add: br_def branch_links_def bp(1))
  from splice_as_run [OF this new_block_facts(2) [OF b m(2)] m(4), of ino b]
  obtain f where f: "\<And>ei. i_data (f ei) = i_data ei" "\<And>ei. i_gps (f ei) = gps_now s"
    and v: "v = upd_inode ino f (write_run ino ?p (hd new) ?c u)"
    unfolding v_def rest by (auto simp: ls(7,8) gps_now_def Let_def)
  note sp = spliced_space [OF b, folded u_def, OF v] and tr = spliced_tree [OF b, folded u_def, OF f(1) v]
  show "alloc_inv v" "tree_ok v ino" "geo_same s v" using sp tr by simp_all
  show "layout_ok v" using s(4) sp(2,3) by (auto simp: layout_ok_def)
  have av: "ks_arch v = ks_arch s" by (simp add: v ls(7))
  show "ptr_block v (ind_key (last br)) = last new"
    using branch_links_last [OF len, of t ?p] new_block_facts(2) [OF b m(3)] ptr_block_block_ptr [of "last new" s]
    by (simp add: br_def ptr_block_def av bp)
  have fp: "file_ptr v ino c = (if b \<le> c \<and> c < b + int num then block_ptr s (last new + nat (c - b)) else file_ptr s ino c)"
    if c: "0 \<le> c" "c < max_file_blocks s" for c
  proof -
    have "path_ok (EXT2_ADDR_PER_BLOCK s) (fst (ext2_block_to_path s c))" using path_valid [OF path(1) c] by (metis surjective_pairing)
    then show ?thesis
      using tr(2) path_ok_butlast added_path [OF path c, of lv new] s(1) geo_same_path(1) [OF sp(4)] by (simp add: file_ptr_path hole_at_def)
  qed
  have z: "file_ptr s ino c = 0" if "b \<le> c" "c < b + int num" for c
  proof -
    have i: "nat (c - b) < num" "c = b + int (nat (c - b))" "int (nat (c - b)) \<le> bd" using that path(5) by auto
    have "fst (ext2_block_to_path s c) = butlast os @ [last os + nat (c - b)]" using path_boundary [OF path(1-4) i(3)] i(2) by simp
    then show ?thesis using run_was_hole [OF s(2,1), of "nat (c - b)"] hole i(1) by (simp add: file_ptr_path)
  qed
  obtain ei where "ks_icache u ino = Some ei" using b ls(1) by (cases "ks_icache u ino") (auto simp: building_def tree_ok_def same_ptrs_def)
  then obtain ei' where "ks_icache (write_run ino ?p (hd new) ?c u) ino = Some ei'" using write_run_icache by blast
  then have "\<exists>ei. ks_icache v ino = Some ei \<and> i_gps ei = gps_now s" using f(2) by (simp add: v)
  moreover have "{last new..<last new + num} \<subseteq> branch_blocks new num" "branch_blocks new num \<subseteq> free_space s"
    using b by (auto simp: branch_blocks_def building_def new_branch_def)
  ultimately show "blocks_added s ino b (last new) num v" using fp z sp(2) unfolding blocks_added_def by auto
qed

lemma file_kept_frame:
  assumes "alloc_inv s" "tree_ok s ino" "addr_ok s" "fs_frame s t" "free_space t = free_space s"
  shows "tree_ok t ino" "geo_same s t" "file_kept s ino t" "layout_ok s \<Longrightarrow> layout_ok t"
proof -
  have nb: "ind_block s ino r \<notin> bitmap_blocks s" if "r \<in> ind_set s ino" for r using that assms(2) by (auto simp: tree_ok_def)
  note sp = fs_frame_same_ptrs [OF assms(4), of ino] and geo = fs_frame_geo [OF assms(4)]
  show "geo_same s t" by (rule geo)
  show "tree_ok t ino" using same_ptrs_tree [OF assms(2) sp nb geo] assms(5) fs_frame_bitmaps [OF assms(4)] by simp
  have "file_ptr t ino c = file_ptr s ino c" if "0 \<le> c" "c < max_file_blocks s" for c
    using same_ptrs_path [OF assms(2) sp nb] path_ok_butlast path_valid [OF assms(3) that] geo_same_path(1) [OF geo]
    by (metis file_ptr_path surjective_pairing)
  then show "file_kept s ino t" using assms(5) by (simp add: file_kept_def)
  show "layout_ok s \<Longrightarrow> layout_ok t" using assms(5) fs_frame_bitmaps [OF assms(4)] by (simp add: layout_ok_def)
qed

definition window_ok :: "kstate \<Rightarrow> nat \<Rightarrow> bool" where
  "window_ok s ino \<longleftrightarrow> (\<forall>ei. ks_icache s ino = Some ei \<longrightarrow> i_block_alloc_info ei = None \<longrightarrow> rsv_is_empty (win (ks_sbi s) ino))"

text \<open>The state of a file system and of one of its files before a block is mapped.\<close>

definition file_inv :: "kstate \<Rightarrow> nat \<Rightarrow> bool" where
  "file_inv s ino \<longleftrightarrow> balloc_inv s \<and> 9 \<le> s_blocksize_bits (ks_sb s) \<and> layout_ok s \<and> tree_ok s ino \<and> addr_ok s"

lemma alloc_and_splice_ok:
  assumes inv: "file_inv s ino" "window_ok s ino" "ino \<noteq> 0" and b: "0 \<le> b" "b < max_file_blocks s" "ext2_block_to_path s b = (os, bd)"
    and hole: "path_ptr s ino os = 0" and mb: "1 \<le> maxblocks" and q: "be_quota (ge_balloc e) \<le> 0"
  shows "\<exists>ret bh' s'. alloc_and_splice e ino b os bd maxblocks (path_links s ino os) bh s = Some ((ret, bh'), s') \<and> file_inv s' ino \<and> geo_same s s' \<and>
    (if 0 < ret then ret \<le> int maxblocks \<and> (\<exists>first. bh_block bh' = Some first \<and> bh_new bh' \<and> blocks_added s ino b first (nat ret) s')
     else ret < 0 \<and> ret \<in> {be_quota (ge_balloc e), - ENOSPC} \<and> bh' = bh \<and> file_kept s ino s')"
proof -
  define t where "t = (case ks_icache s ino of None \<Rightarrow> s
     | Some ei \<Rightarrow> if S_ISREG (i_mode (vfs_inode ei)) \<and> i_block_alloc_info ei = None then ext2_init_block_alloc_info ino s else s)"
  have fi: "alloc_inv s" "layout_ok s" "tree_ok s ino" "addr_ok s" using inv(1) by (simp_all add: file_inv_def)
  have "t = s \<or> t = ext2_init_block_alloc_info ino s \<and> rsv_is_empty (win (ks_sbi s) ino)"
    using inv(2) by (auto simp: t_def window_ok_def split: option.splits)
  then have t: "alloc_inv t" "free_space t = free_space s" "bitmap_blocks t = bitmap_blocks s" "same_ptrs ino {} s t" "geo_same s t" "ks_gps t = ks_gps s"
    using fi(1) init_alloc_info_ok [OF fi(1) inv(3)] by (auto simp: geo_same_def)
  have arch: "ks_arch t = ks_arch s" using t(4) by (simp add: same_ptrs_def)
  have rd: "read_ptr t ino q = read_ptr s ino q" for q by (cases q) (simp_all add: same_ptrs_read [OF t(4)])
  note same = same_reads [OF arch rd] and geo = geo_same_path [OF t(5)]
  have tree: "tree_ok t ino" using same_ptrs_tree(1) [OF fi(3) t(4) _ t(5)] t(2,3) by simp
  have lay: "layout_ok t" using fi(2) t(2,3) by (simp add: layout_ok_def)
  have bt: "addr_ok t" "0 \<le> b" "b < max_file_blocks t" "ext2_block_to_path t b = (os, bd)" using fi(4) b geo by simp_all
  have os: "path_ok (EXT2_ADDR_PER_BLOCK t) os" using path_valid [OF bt] by simp
  then have ne: "os \<noteq> []" by (auto simp: path_ok_def)
  define ls lv p where "ls = path_links t ino os" and "lv = length ls" and "p = hole_place t ino os lv"
  have ch: "hole_at t ino os lv" "ind_p (last ls) = p" using chain_hole [OF ne, of t ino] hole same(2) by (simp_all add: ls_def lv_def p_def)
  have lsk: "read_ptr t ino p = 0"
    using hole same(2) links_last_key [of t ino "In_inode (hd os)" "tl os"] ch(2) by (simp add: path_ptr_def ls_def path_links_def)
  define k where "k = length os - lv"
  define c where "c = ext2_blks_to_allocate t ino p k maxblocks bd"
  note ca = blks_to_allocate_ok [OF mb path_next(1) [OF bt] lsk, of k, folded c_def]
  obtain new num err u where u: "ext2_alloc_blocks (ge_balloc e) ino (ext2_find_goal (ge_pid e) ino b (last ls) t) k c t = Some ((new, num, err), u)"
    "alloc_inv u" "fs_frame t u" "if err = 0 then new_branch t k c new num u else free_space u = free_space t \<and> err \<in> {be_quota (ge_balloc e), - ENOSPC}"
    using alloc_blocks_ok [OF t(1) inv(3) ca(1)] by metis
  let ?r = "alloc_and_splice e ino b os bd maxblocks (path_links s ino os) bh s"
  have len: "length (drop lv os) = k" by (simp add: k_def)
  have lss: "path_links s ino os = ls" by (simp add: ls_def same(1))
  have eq: "?r = (case ext2_alloc_branch (ge_balloc e) ino (drop lv os) c (ext2_find_goal (ge_pid e) ino b (last ls) t) p t of
        None \<Rightarrow> None
      | Some ((err, branch, num), s2) \<Rightarrow>
          if err \<noteq> 0 then Some ((err, bh), s2)
          else Some (got_it branch num bd (bh\<lparr>bh_new := True\<rparr>) (ext2_splice_branch ino b branch num s2)))"
    unfolding alloc_and_splice_def Let_def t_def [symmetric] lss ch(2) lv_def [symmetric] len c_def by (rule refl)
  show ?thesis
  proof (cases "err = 0")
    case True
    have nb: "new_branch t k num new num u" "num \<le> c" using u(4) True by (auto simp: new_branch_def)
    have "int num \<le> bd + 1" using nb(2) ca(3) by simp
    moreover have "bd = (if length os = 1 then 11 else int (EXT2_ADDR_PER_BLOCK t) - 1) - int (last os)"
      using path_of_block(3) [OF bt(1) os] path_valid [OF bt] bt(4) by simp
    ultimately have "last os + num \<le> (if length os = 1 then 12 else EXT2_ADDR_PER_BLOCK t)" by (auto split: if_splits)
    then have bd: "building t ino os lv new num u"
      using t(1) lay tree os ch(1) nb(1) u(2,3) by (simp add: building_def k_def)
    have z: "read_ptr t ino (ptr_plus (hole_place t ino os lv) j) = 0" if "lv = length os" "j < num" for j
      using ca(4) that nb(2) by (simp add: p_def k_def)
    note d = branch_done [OF bd bt \<open>int num \<le> bd + 1\<close> z, folded p_def]
    let ?br = "branch_links u p (drop lv os) new"
    let ?v = "ext2_splice_branch ino b ?br num (link_branch (drop lv os) new num u)"
    have r: "?r = Some (got_it ?br num bd (bh\<lparr>bh_new := True\<rparr>) ?v)"
      unfolding eq ext2_alloc_branch_def len u(1) using True by simp
    have "1 \<le> num" "num \<le> maxblocks" using nb ca(2) by (auto simp: new_branch_def)
    moreover have "addr_ok ?v" using geo_same_path(4) [OF d(4)] bt(1) by simp
    then have "file_inv ?v ino" using d(1-3) by (simp add: file_inv_def)
    moreover have "geo_same s ?v" using t(5) d(4) by (simp add: geo_same_def)
    ultimately show ?thesis using r d(5,6) blocks_added_start(1) [OF t(4,5,2,6)] by (auto simp: got_it_def)
  next
    case False
    have r: "?r = Some ((err, bh), u)" unfolding eq ext2_alloc_branch_def len u(1) using False by simp
    have fs: "free_space u = free_space t" using u(4) False by simp
    note kp = file_kept_frame [OF t(1) tree bt(1) u(3) fs]
    have "file_inv u ino" using u(2) kp geo_same_path(4) [OF kp(2)] lay bt(1) by (simp add: file_inv_def)
    moreover have "geo_same s u" using t(5) kp(2) by (simp add: geo_same_def)
    moreover have "file_kept s ino u" using kp(3) blocks_added_start(2) [OF t(4,5,2,6)] by simp
    ultimately show ?thesis using r False u(4) q by auto
  qed
qed

lemma get_blocks_hole:
  assumes "file_inv s ino" "alone e" "0 \<le> b" "b < max_file_blocks s" "file_ptr s ino b = 0"
  shows "\<exists>os bd. ext2_block_to_path s b = (os, bd) \<and> path_ptr s ino os = 0 \<and>
    ext2_get_blocks e ino b maxblocks bh True s = alloc_and_splice e ino b os bd maxblocks (path_links s ino os) bh s"
proof -
  obtain os bd where p: "ext2_block_to_path s b = (os, bd)" by (cases "ext2_block_to_path s b")
  have fi: "tree_ok s ino" "addr_ok s" using assms(1) by (simp_all add: file_inv_def)
  have os: "path_ok (EXT2_ADDR_PER_BLOCK s) os" using path_valid [OF fi(2) assms(3,4) p] by simp
  have z: "path_ptr s ino os = 0" using assms(5) p by (simp add: file_ptr_path)
  have "ext2_get_branch (ge_lookup e) ino os s = ((path_links s ino os, False, 0), s)"
    using get_branch_alone(1) [of "ge_lookup e" s ino os] tree_ok_readable [OF fi(1) os] assms(2) z by (simp add: alone_def path_ptr_def)
  moreover have "verify_chain s ino (path_links s ino os)" by (simp add: path_links_def verify_links)
  moreover have "os \<noteq> []" using os by (auto simp: path_ok_def)
  ultimately have "ext2_get_blocks e ino b maxblocks bh True s = alloc_and_splice e ino b os bd maxblocks (path_links s ino os) bh s"
    using assms(2) by (simp add: ext2_get_blocks_def p Let_def alone_def)
  then show ?thesis using p z by blast
qed

section \<open>Properties\<close>

text \<open>
  C3: mapping a missing block of a file, with no other thread in between, always returns and keeps the
  file system and the tree of the file sound. On success at least one and at most \<open>maxblocks\<close> blocks,
  all free before, are mapped one after the other from the requested block on; they were holes, every
  other block of the file keeps its place, and the inode carries the current location. A failure is the
  result of the quota check or \<open>-ENOSPC\<close>; then the free space and every block of the file are as before,
  whatever part of the branch had been allocated already.
\<close>

theorem get_blocks_create:
  assumes "file_inv s ino" and "window_ok s ino" and "ino \<noteq> 0" and "alone e" and "be_quota (ge_balloc e) \<le> 0"
    and "0 \<le> b" and "b < max_file_blocks s" and "1 \<le> maxblocks" and "file_ptr s ino b = 0"
  shows "\<exists>ret bh' s'. ext2_get_blocks e ino b maxblocks bh True s = Some ((ret, bh'), s') \<and> file_inv s' ino \<and>
    (if 0 < ret then ret \<le> int maxblocks \<and> (\<exists>first. bh_block bh' = Some first \<and> bh_new bh' \<and> blocks_added s ino b first (nat ret) s')
     else ret < 0 \<and> ret \<in> {be_quota (ge_balloc e), - ENOSPC} \<and> bh' = bh \<and> file_kept s ino s')"
proof -
  obtain os bd where p: "ext2_block_to_path s b = (os, bd)" "path_ptr s ino os = 0"
    and eq: "ext2_get_blocks e ino b maxblocks bh True s = alloc_and_splice e ino b os bd maxblocks (path_links s ino os) bh s"
    using get_blocks_hole [OF assms(1,4,6,7,9)] by blast
  show ?thesis using alloc_and_splice_ok [OF assms(1-3,6,7) p assms(8,5), of bh] unfolding eq by blast
qed

text \<open>A file system with an empty file.\<close>

definition sample_file_fs :: kstate where
  "sample_file_fs = sample_alloc_fs\<lparr>ks_icache := [13 \<mapsto> sample_ei]\<rparr>"

definition sample_get :: get_env where
  "sample_get = \<lparr>ge_balloc = sample_creds, ge_pid = 7, ge_lookup = (\<lambda>_ s. s), ge_mapping = (\<lambda>_ s. s), ge_wait = (\<lambda>s. s),
     ge_relookup = (\<lambda>_ s. s)\<rparr>"

definition sample_bh :: buffer_result where
  "sample_bh = \<lparr>bh_block = None, bh_new = False, bh_boundary = False\<rparr>"

lemma sample_file_ptr: "r \<noteq> [] \<Longrightarrow> hd r < 15 \<Longrightarrow> path_ptr sample_file_fs 13 r = 0"
proof (induction r rule: rev_induct)
  case (snoc i r)
  then show ?case by (cases "r = []") (auto simp: path_ptr_snoc read_ptr.simps sample_file_fs_def sample_defs)
qed simp

lemma sample_path_hd: "path_ok n r \<Longrightarrow> r \<noteq> [] \<and> hd r < 15"
  by (auto elim: path_ok_elim)

lemma sample_free_space: "free_space sample_file_fs \<subseteq> {13..64}" "bitmap_blocks sample_file_fs = {3}"
proof -
  have c: "s_blocks_per_group (ks_sbi sample_file_fs) = 64" "s_groups_count (ks_sbi sample_file_fs) = 1" "ext2_group_first_block_no sample_file_fs 0 = 1"
    "lookup_group_desc sample_file_fs 0 = Some (sample_desc\<lparr>bg_free_blocks_count := 52\<rparr>)" "ks_dev sample_file_fs 3 = Some sample_bitmap"
    "lookup_group_desc sample_file_fs (Suc g) = None" for g
    by (simp_all add: sample_file_fs_def sample_alloc_fs_def sample_windows_def sample_defs ext2_group_first_block_no_def lookup_group_desc_def
        group_desc_index_def group_desc_offset_def)
  have "group_bitmap sample_file_fs 0 = Some sample_bitmap" using c by (simp add: group_bitmap_def sample_desc_def)
  then show "free_space sample_file_fs \<subseteq> {13..64}" using c sample_bitmap_bits by (auto simp: free_space_def not_less)
  have "lookup_group_desc sample_file_fs g = Some d \<longleftrightarrow> g = 0 \<and> d = sample_desc\<lparr>bg_free_blocks_count := 52\<rparr>" for g d
    using c(4,6) by (cases g) auto
  then show "bitmap_blocks sample_file_fs = {3}" by (auto simp: bitmap_blocks_def sample_desc_def)
qed

lemma sample_file_inv: "file_inv sample_file_fs 13" "window_ok sample_file_fs 13" "alone sample_get" "be_quota (ge_balloc sample_get) \<le> 0"
  "max_file_blocks sample_file_fs = 16843020" "0 \<le> b \<Longrightarrow> b < 16843020 \<Longrightarrow> file_ptr sample_file_fs 13 b = 0"
proof -
  have "balloc_inv sample_file_fs = balloc_inv sample_alloc_fs" by (rule space_same) (simp_all add: sample_file_fs_def)
  moreover have "layout_ok sample_file_fs" using sample_free_space by (auto simp: layout_ok_def)
  moreover have a: "addr_ok sample_file_fs" "EXT2_ADDR_PER_BLOCK sample_file_fs = 256"
    by (simp_all add: addr_ok_def EXT2_ADDR_PER_BLOCK_def sample_file_fs_def sample_alloc_fs_def sample_windows_def sample_defs)
  moreover have "ind_set sample_file_fs 13 = {}" using sample_file_ptr by (auto simp: ind_set_def ind_pos_def)
  then have "tree_ok sample_file_fs 13" by (simp add: tree_ok_def sample_file_fs_def sample_ei_def)
  ultimately show "file_inv sample_file_fs 13"
    using sample_alloc_fs_inv by (simp add: file_inv_def) (simp add: sample_file_fs_def sample_alloc_fs_def sample_defs)
  show "window_ok sample_file_fs 13" by (simp add: window_ok_def rsv_is_empty_def sample_file_fs_def sample_alloc_fs_def sample_windows_def sample_defs)
  show "alone sample_get" "be_quota (ge_balloc sample_get) \<le> 0" by (simp_all add: alone_def sample_get_def sample_creds_def)
  show m: "max_file_blocks sample_file_fs = 16843020" by (simp add: max_file_blocks_def a(2))
  show "file_ptr sample_file_fs 13 b = 0" if "0 \<le> b" "b < 16843020"
    using path_valid [OF a(1) that(1), of "fst (ext2_block_to_path sample_file_fs b)"] that(2) m sample_file_ptr sample_path_hd
    by (metis file_ptr_path surjective_pairing)
qed

theorem get_blocks_create_witness:
  "\<exists>ret bh' s'. ext2_get_blocks sample_get 13 300 4 sample_bh True sample_file_fs = Some ((ret, bh'), s') \<and> file_inv s' 13 \<and>
     (0 < ret \<longrightarrow> (\<exists>first. bh_block bh' = Some first \<and> blocks_added sample_file_fs 13 300 first (nat ret) s'))"
  using get_blocks_create [OF sample_file_inv(1,2) _ sample_file_inv(3,4), of 300 4 sample_bh] sample_file_inv(5,6) by fastforce

text \<open>
  C7: looking a block up, with no other thread in between, agrees with following the pointers one by
  one: a number outside the file or an unreadable indirect block is \<open>-EIO\<close>, a hole is 0, and otherwise
  the first block is the one the pointers lead to and every further block that is reported lies right
  behind it. A lookup changes nothing.
\<close>

theorem get_blocks_lookup:
  assumes "addr_ok s" and "alone e"
  shows "\<exists>ret bh'. ext2_get_blocks e ino b maxblocks bh False s = Some ((ret, bh'), s) \<and>
    (if b < 0 \<or> max_file_blocks s \<le> b \<or> \<not> path_readable s ino (fst (ext2_block_to_path s b)) then ret = - EIO \<and> bh' = bh
     else if file_ptr s ino b = 0 then ret = 0 \<and> bh' = bh
     else 1 \<le> ret \<and> ret \<le> int (max 1 maxblocks) \<and> bh_block bh' = Some (ptr_block s (file_ptr s ino b)) \<and> \<not> bh_new bh' \<and>
       (\<forall>k. int k < ret \<longrightarrow> le_to_cpu (ks_arch s) (file_ptr s ino (b + int k)) = le_to_cpu (ks_arch s) (file_ptr s ino b) + of_nat k))"
proof (cases "b < 0 \<or> max_file_blocks s \<le> b \<or> \<not> path_readable s ino (fst (ext2_block_to_path s b))")
  case True
  then show ?thesis using get_blocks_absent(1) [OF assms True] by simp
next
  case False
  then have b: "0 \<le> b" "b < max_file_blocks s" "path_readable s ino (fst (ext2_block_to_path s b))" by auto
  show ?thesis
  proof (cases "file_ptr s ino b = 0")
    case True
    then show ?thesis using get_blocks_absent(2) [OF assms b True] False by simp
  next
    case mapped: False
    show ?thesis using get_blocks_mapped [OF assms b mapped, of maxblocks bh False] False mapped
      by (simp add: Bex_def [symmetric]) (metis of_nat_less_iff int_one_le_iff_zero_less of_nat_0_less_iff of_nat_le_iff less_eq_Suc_le One_nat_def)
  qed
qed

text \<open>A file whose first block is block 20 of the device.\<close>

definition sample_mapped_fs :: kstate where
  "sample_mapped_fs = sample_file_fs\<lparr>ks_icache := [13 \<mapsto> sample_ei\<lparr>i_data := (replicate 15 0)[0 := 20, 1 := 21]\<rparr>]\<rparr>"

theorem get_blocks_lookup_witness:
  "\<exists>ret bh'. ext2_get_blocks sample_get 13 0 4 sample_bh False sample_mapped_fs = Some ((ret, bh'), sample_mapped_fs) \<and>
     1 \<le> ret \<and> bh_block bh' = Some 20"
proof -
  let ?s = sample_mapped_fs
  have a: "addr_ok ?s" "EXT2_ADDR_PER_BLOCK ?s = 256" "ks_arch ?s = LittleEndian"
    by (simp_all add: addr_ok_def EXT2_ADDR_PER_BLOCK_def sample_mapped_fs_def sample_file_fs_def sample_alloc_fs_def sample_windows_def sample_defs)
  have p: "ext2_block_to_path ?s 0 = ([0], 11)" using path_cases [OF a(1), of 0] a(2) by (simp add: max_file_blocks_def)
  have "file_ptr ?s 13 0 = 20" by (simp add: file_ptr_path p read_ptr.simps) (simp add: sample_mapped_fs_def)
  then show ?thesis
    using get_blocks_lookup [OF a(1) sample_file_inv(3), of 13 0 4 sample_bh] p
    by (simp add: max_file_blocks_def a(2,3) path_readable_def ptr_block_def) blast
qed

text \<open>
  C8: a block that was just mapped is found again: after a successful mapping every lookup of the block
  returns the block that was reported, and takes it from the pointers without changing anything.
\<close>

theorem get_blocks_create_lookup:
  assumes "file_inv s ino" and "window_ok s ino" and "ino \<noteq> 0" and "alone e" and "be_quota (ge_balloc e) \<le> 0"
    and "0 \<le> b" and "b < max_file_blocks s" and "1 \<le> maxblocks" and "file_ptr s ino b = 0"
    and "ext2_get_blocks e ino b maxblocks bh True s = Some ((ret, bh'), s')" and "0 < ret" and "alone e'"
  shows "\<exists>ret' bh''. ext2_get_blocks e' ino b maxblocks' bh0 create s' = Some ((ret', bh''), s') \<and> 0 < ret' \<and>
    bh_block bh'' = bh_block bh' \<and> \<not> bh_new bh''"
proof -
  obtain os bd where p: "ext2_block_to_path s b = (os, bd)" "path_ptr s ino os = 0"
    and eq: "ext2_get_blocks e ino b maxblocks bh True s = alloc_and_splice e ino b os bd maxblocks (path_links s ino os) bh s"
    using get_blocks_hole [OF assms(1,4,6,7,9)] by blast
  obtain first where f: "file_inv s' ino" "bh_block bh' = Some first" "blocks_added s ino b first (nat ret) s'"
    using alloc_and_splice_ok [OF assms(1-3,6,7) p assms(8,5), of bh] assms(10,11) unfolding eq by auto
  have fs: "first \<in> free_space s" "file_ptr s' ino b = block_ptr s first"
    using f(3) assms(6,7,11) by (auto simp: blocks_added_def)
  have inv: "balloc_inv s" "layout_ok s" "addr_ok s" "addr_ok s'" "tree_ok s' ino" using assms(1) f(1) by (simp_all add: file_inv_def)
  have "freeable s {first}" using free_run_freeable inv(1) fs(1) by simp
  then have lt: "first < 2 ^ 32" using unsigned_less [of "es_blocks_count (ks_es s)", where ?'a = nat] by (simp add: freeable_def)
  have nz: "0 < first" using fs(1) inv(2) by (cases first) (auto simp: layout_ok_def)
  have geo: "geo_same s s'" using alloc_and_splice_ok [OF assms(1-3,6,7) p assms(8,5), of bh] assms(10) unfolding eq by auto
  have pb: "ptr_block s' (file_ptr s' ino b) = first"
    using geo ptr_block_block_ptr [OF lt, of s] by (simp add: fs(2) ptr_block_def geo_same_def)
  have b: "0 \<le> b" "b < max_file_blocks s'" using assms(6,7) geo_same_path(3) [OF geo] by simp_all
  have "path_readable s' ino (fst (ext2_block_to_path s' b))"
    using tree_ok_readable [OF inv(5)] path_valid [OF inv(4) b] by (metis surjective_pairing)
  from get_blocks_mapped [OF inv(4) assms(12) b this, of maxblocks' bh0 create] show ?thesis
    using block_ptr_0 [OF nz lt, of s] fs(2) pb f(2) by fastforce
qed

text \<open>
  C11: the path to a block: a block number is outside the reach of the pointers exactly when it is
  negative or not below the sum of the four ranges, and then the path is empty. Otherwise the path has the offsets of
  the levels in range, no other block has the same path, the count of blocks to the boundary is
  never negative, the paths of the blocks up to the boundary differ in the last offset only, and the
  block behind the boundary lies in another block of pointers.
\<close>

theorem block_to_path_correct:
  assumes "addr_ok s"
  shows "case ext2_block_to_path s b of (os, boundary) \<Rightarrow>
    if b < 0 \<or> max_file_blocks s \<le> b then os = []
    else path_ok (EXT2_ADDR_PER_BLOCK s) os \<and> path_block (int (EXT2_ADDR_PER_BLOCK s)) os = b \<and> 0 \<le> boundary \<and>
      (\<forall>k. int k \<le> boundary \<longrightarrow> ext2_block_to_path s (b + int k) = (butlast os @ [last os + k], boundary - int k)) \<and>
      butlast (fst (ext2_block_to_path s (b + boundary + 1))) \<noteq> butlast os"
proof -
  obtain os bd where p: "ext2_block_to_path s b = (os, bd)" by (cases "ext2_block_to_path s b")
  show ?thesis
  proof (cases "b < 0 \<or> max_file_blocks s \<le> b")
    case True
    then show ?thesis using path_error [OF assms, of b] p by simp
  next
    case False
    then have b: "0 \<le> b" "b < max_file_blocks s" by auto
    show ?thesis using path_valid [OF assms b p] path_next [OF assms b p] path_boundary [OF assms b p] False p by simp
  qed
qed

theorem block_to_path_correct_witness:
  "path_block 256 (fst (ext2_block_to_path sample_file_fs 70000)) = 70000"
proof -
  have a: "addr_ok sample_file_fs" "EXT2_ADDR_PER_BLOCK sample_file_fs = 256"
    by (simp_all add: addr_ok_def EXT2_ADDR_PER_BLOCK_def sample_file_fs_def sample_alloc_fs_def sample_windows_def sample_defs)
  show ?thesis using block_to_path_correct [OF a(1), of 70000] a(2)
    by (cases "ext2_block_to_path sample_file_fs 70000") (simp add: max_file_blocks_def)
qed

text \<open>
  C6: following a path while other threads change the tree gives a chain that was the path at one
  moment: whatever happens while the indirect blocks are read, a chain that is returned without an
  error is exactly the chain of links in the state at the end, complete or up to its first missing
  pointer.
\<close>

theorem get_branch_linearizable:
  assumes "\<And>i t. ks_arch (other i t) = ks_arch t" and "ext2_get_branch other ino os s = ((chain, whole, 0), s')"
  shows "chain = path_links s' ino os \<and> (whole \<longleftrightarrow> ind_key (last chain) \<noteq> 0) \<and> verify_chain s' ino chain"
  using get_branch_snapshot [OF assms] by simp

text \<open>Another thread maps the block while its indirect block is read.\<close>

theorem get_branch_linearizable_witness:
  "\<exists>chain s'. ext2_get_branch (\<lambda>_ t. put_block 20 (store_word LittleEndian (\<lambda>_. 0) 8 (33 :: u32)) t) 13 [12, 2]
       (sample_file_fs\<lparr>ks_icache := [13 \<mapsto> sample_ei\<lparr>i_data := (replicate 15 0)[12 := 20]\<rparr>]\<rparr>) = ((chain, True, 0), s') \<and>
     chain = path_links s' 13 [12, 2] \<and> ind_key (last chain) = 33"
proof -
  let ?o = "\<lambda>(_ :: nat) t. put_block 20 (store_word LittleEndian (\<lambda>_. 0) 8 (33 :: u32)) t"
  let ?s = "sample_file_fs\<lparr>ks_icache := [13 \<mapsto> sample_ei\<lparr>i_data := (replicate 15 0)[12 := 20]\<rparr>]\<rparr>"
  have A: "ks_arch sample_file_fs = LittleEndian" by (simp add: sample_file_fs_def sample_alloc_fs_def sample_fs_def)
  have L: "load_word LittleEndian (store_word LittleEndian (\<lambda>_. 0) 8 (33 :: u32)) 8 = (33 :: u32)" by (simp add: load_store_same)
  obtain chain s' where r: "ext2_get_branch ?o 13 [12, 2] ?s = ((chain, True, 0), s')" "ind_key (last chain) = 33"
    by (simp add: ext2_get_branch_def Let_def add_chain_def read_ptr.simps put_block_def ptr_block_def A L)
  have "\<And>i t. ks_arch (?o i t) = ks_arch t" by (simp add: put_block_def)
  from get_branch_linearizable [OF this r(1)] show ?thesis using r by blast
qed

lemma sample_new_block:
  "\<exists>b s1. ext2_new_blocks sample_creds 13 goal 1 sample_file_fs = Some ((b, 1, 0), s1)"
proof -
  let ?s = sample_file_fs
  have i: "balloc_inv ?s" "9 \<le> s_blocksize_bits (ks_sb ?s)" using sample_file_inv(1) by (simp_all add: file_inv_def)
  have "ext2_group_first_block_no ?s 0 + 20 \<in> free_space ?s"
    using sample_bitmap_bits [of 20] by (subst free_space_iff) (simp_all add: group_bitmap_def sample_file_fs_def sample_alloc_fs_def sample_windows_def
        sample_defs lookup_group_desc_def group_desc_index_def group_desc_offset_def)
  moreover have "ext2_has_free_blocks sample_creds ?s" "be_quota sample_creds = 0" by (simp_all add: ext2_has_free_blocks_def sample_creds_def)
  moreover obtain b num err s1 where r: "ext2_new_blocks sample_creds 13 goal 1 ?s = Some ((b, num, err), s1)"
    "new_blocks_spec sample_creds 13 1 ?s b num err s1"
    using new_blocks_ok [OF i(1), of 13 1 sample_creds goal] i(2) by auto
  ultimately have "err = 0" "num = 1" by (auto simp: new_blocks_spec_def split: if_splits)
  then show ?thesis using r(1) by blast
qed

lemma sample_create:
  "\<exists>ret bh' s'. ext2_get_blocks sample_get 13 0 1 sample_bh True sample_file_fs = Some ((ret, bh'), s') \<and> 0 < ret"
proof -
  let ?s = sample_file_fs
  obtain os bd where eq: "ext2_get_blocks sample_get 13 0 1 sample_bh True ?s = alloc_and_splice sample_get 13 0 os bd 1 (path_links ?s 13 os) sample_bh ?s"
    and p: "ext2_block_to_path ?s 0 = (os, bd)"
    using get_blocks_hole [OF sample_file_inv(1,3), of 0 1 sample_bh] sample_file_inv(5,6) by auto
  have a: "addr_ok ?s" "EXT2_ADDR_PER_BLOCK ?s = 256"
    by (simp_all add: addr_ok_def EXT2_ADDR_PER_BLOCK_def sample_file_fs_def sample_alloc_fs_def sample_windows_def sample_defs)
  have os: "os = [0]" using path_cases [OF a(1), of 0] a(2) p by (simp add: max_file_blocks_def)
  have ls: "path_links ?s 13 [0] = [add_chain ?s 13 (In_inode 0)]" by (simp add: path_links_def)
  obtain b s1 where nb: "ext2_new_blocks sample_creds 13 (ext2_find_goal 7 13 0 (add_chain ?s 13 (In_inode 0)) ?s) 1 ?s = Some ((b, 1, 0), s1)"
    using sample_new_block by blast
  have "ks_icache ?s 13 = Some sample_ei" "i_block_alloc_info sample_ei = None" "\<not> S_ISREG (i_mode (vfs_inode sample_ei))"
    by (simp_all add: sample_file_fs_def sample_defs S_ISREG_def)
  then show ?thesis unfolding eq os ls
    using nb by (simp add: alloc_and_splice_def Let_def sample_get_def ext2_blks_to_allocate_def ext2_alloc_branch_def ext2_alloc_blocks_def got_it_def)
qed

theorem get_blocks_create_lookup_witness:
  "\<exists>ret bh' s' ret' bh''. ext2_get_blocks sample_get 13 0 1 sample_bh True sample_file_fs = Some ((ret, bh'), s') \<and>
     ext2_get_blocks sample_get 13 0 8 sample_bh False s' = Some ((ret', bh''), s') \<and> 0 < ret' \<and> bh_block bh'' = bh_block bh'"
proof -
  obtain ret bh' s' where r: "ext2_get_blocks sample_get 13 0 1 sample_bh True sample_file_fs = Some ((ret, bh'), s')" "0 < ret"
    using sample_create by blast
  have h: "(13::nat) \<noteq> 0" "(0::int) \<le> 0" "0 < max_file_blocks sample_file_fs" "1 \<le> (1::nat)" "file_ptr sample_file_fs 13 0 = 0"
    using sample_file_inv(5,6) by simp_all
  from get_blocks_create_lookup [OF sample_file_inv(1,2) h(1) sample_file_inv(3,4) h(2-5) r sample_file_inv(3), of 8 sample_bh False]
  show ?thesis using r(1) by blast
qed

text \<open>
  C10: the blocks of a branch are allocated all or none. Asking for indirect blocks and at least one data
  block on a sound file system always returns: either exactly the indirect blocks and between one and
  \<open>blks\<close> data blocks, all different and all free before, are taken out of the free space; or there is an
  error, the indirect blocks allocated on the way are given back, and the free space is as before. Either
  way no block but bitmaps changes.
\<close>

theorem alloc_blocks_all_or_none:
  assumes "balloc_inv s" and "9 \<le> s_blocksize_bits (ks_sb s)" and "ino \<noteq> 0" and "1 \<le> blks"
  shows "\<exists>new num err s'. ext2_alloc_blocks e ino goal indirect_blks blks s = Some ((new, num, err), s') \<and> balloc_inv s' \<and> fs_frame s s' \<and>
    (if err = 0
     then length new = indirect_blks + 1 \<and> distinct (butlast new) \<and> 1 \<le> num \<and> num \<le> blks \<and>
       set (butlast new) \<inter> {last new..<last new + num} = {} \<and> set (butlast new) \<union> {last new..<last new + num} \<subseteq> free_space s \<and>
       free_space s' = free_space s - (set (butlast new) \<union> {last new..<last new + num})
     else err \<in> {be_quota e, - ENOSPC} \<and> free_space s' = free_space s)"
proof -
  have inv: "alloc_inv s" using assms(1,2) by simp
  show ?thesis using alloc_blocks_ok [OF inv assms(3,4), of e goal indirect_blks]
    by (auto simp: new_branch_def branch_blocks_def split: if_splits)
qed

theorem alloc_blocks_all_or_none_witness:
  "\<exists>new num err s'. ext2_alloc_blocks sample_creds 13 20 2 4 sample_file_fs = Some ((new, num, err), s') \<and> balloc_inv s' \<and>
     (err \<noteq> 0 \<longrightarrow> free_space s' = free_space sample_file_fs)"
  using alloc_blocks_all_or_none [of sample_file_fs 13 4 sample_creds 20 2] sample_file_inv(1) by (auto simp: file_inv_def split: if_splits)


text \<open>Another thread has put an indirect block into the inode that cannot be read.\<close>

definition sample_race :: get_env where
  "sample_race = sample_get\<lparr>ge_wait := (\<lambda>s. write_ptr 13 (In_inode 12) 99 s), ge_relookup := (\<lambda>_ s. s\<lparr>ks_dev := (ks_dev s)(99 := None)\<rparr>)\<rparr>"


end
