(* ===== verification/Spec2Isabelle.thy ===== *)
theory Spec2Isabelle
  imports Gps_Syscall Get_Blocks
begin

text \<open>
  A verification library for a Linux 3.1 kernel whose ext2 file system tags files with the GPS
  location of their last change.
\<close>

end
